theory Spec2Isabelle
  imports Main "HOL-Library.Sublist"
begin

section \<open>JavaScript strings\<close>

text \<open>
  A JavaScript string is a sequence of UTF-16 code units. A code unit is modelled as a
  natural number (the code units are the numbers below 65536; every function below is
  defined on all naturals). ASCII literals of the source are written \<open>js ''...''\<close>,
  other literals as explicit code units.
\<close>

type_synonym jschar = nat
type_synonym jsstring = "jschar list"

abbreviation js :: "string \<Rightarrow> jsstring" where
  "js s \<equiv> map of_char s"

text \<open>The regular expression class \<open>\s\<close>, which is also what \<open>trim()\<close> strips.\<close>

definition isWhiteSpace :: "jschar \<Rightarrow> bool" where
  "isWhiteSpace c =
     (c = 9 \<or> c = 10 \<or> c = 11 \<or> c = 12 \<or> c = 13 \<or> c = 32 \<or> c = 160 \<or> c = 5760 \<or>
      (8192 \<le> c \<and> c \<le> 8202) \<or> c = 8232 \<or> c = 8233 \<or> c = 8239 \<or> c = 8287 \<or>
      c = 12288 \<or> c = 65279)"

text \<open>The class \<open>.\<close> matches every code unit but the four line terminators.\<close>

definition isLineTerminator :: "jschar \<Rightarrow> bool" where
  "isLineTerminator c = (c = 10 \<or> c = 13 \<or> c = 8232 \<or> c = 8233)"

definition dot :: "jschar \<Rightarrow> bool" where
  "dot c = (\<not> isLineTerminator c)"

definition isDigit :: "jschar \<Rightarrow> bool" where
  "isDigit c = (48 \<le> c \<and> c \<le> 57)"

definition isUpperAZ :: "jschar \<Rightarrow> bool" where
  "isUpperAZ c = (65 \<le> c \<and> c \<le> 90)"

definition isLowerAZ :: "jschar \<Rightarrow> bool" where
  "isLowerAZ c = (97 \<le> c \<and> c \<le> 122)"

text \<open>\<open>\w\<close> without the unicode flag.\<close>

definition isWordChar :: "jschar \<Rightarrow> bool" where
  "isWordChar c = (isUpperAZ c \<or> isLowerAZ c \<or> isDigit c \<or> c = 95)"

definition trim :: "jsstring \<Rightarrow> jsstring" where
  "trim s = rev (dropWhile isWhiteSpace (rev (dropWhile isWhiteSpace s)))"

text \<open>\<open>s.split(c)\<close> for a one-character separator: never the empty array.\<close>

fun splitOn :: "jschar \<Rightarrow> jsstring \<Rightarrow> jsstring list" where
  "splitOn c [] = [[]]"
| "splitOn c (x # xs) =
     (if x = c then [] # splitOn c xs
      else (case splitOn c xs of [] \<Rightarrow> [[x]] | y # ys \<Rightarrow> (x # y) # ys))"

fun join :: "jsstring \<Rightarrow> jsstring list \<Rightarrow> jsstring" where
  "join sep [] = []"
| "join sep [x] = x"
| "join sep (x # y # ys) = x @ sep @ join sep (y # ys)"

definition slice :: "nat \<Rightarrow> nat \<Rightarrow> 'a list \<Rightarrow> 'a list" where
  "slice start stop xs = take (stop - start) (drop start xs)"

definition startsWith :: "jsstring \<Rightarrow> jsstring \<Rightarrow> bool" where
  "startsWith s p = (take (length p) s = p)"

definition endsWith :: "jsstring \<Rightarrow> jsstring \<Rightarrow> bool" where
  "endsWith s p = (length p \<le> length s \<and> drop (length s - length p) s = p)"

fun includesStr :: "jsstring \<Rightarrow> jsstring \<Rightarrow> bool" where
  "includesStr [] t = (t = [])"
| "includesStr (c # cs) t = (startsWith (c # cs) t \<or> includesStr cs t)"

text \<open>
  \<open>toUpperCase\<close> and \<open>toLowerCase\<close>. The parsers use the upper-cased string only
  to search it for ASCII words and on regular-expression captures made of ASCII
  characters, and the lower-cased string only to search it for ASCII words between
  \<open>\b\<close> boundaries. The functions below change exactly the code units whose
  image under the Unicode mapping contains an ASCII character, with that image; the
  other code units, whose image has no ASCII character in it, are left as they are.
\<close>

definition upperChar :: "jschar \<Rightarrow> jsstring" where
  "upperChar c =
     (if isLowerAZ c then [c - 32]
      else if c = 223 then [83, 83]
      else if c = 305 then [73]
      else if c = 329 then [700, 78]
      else if c = 383 then [83]
      else if c = 496 then [74, 780]
      else if c = 7830 then [72, 817]
      else if c = 7831 then [84, 776]
      else if c = 7832 then [87, 778]
      else if c = 7833 then [89, 778]
      else if c = 7834 then [65, 702]
      else if c = 64256 then [70, 70]
      else if c = 64257 then [70, 73]
      else if c = 64258 then [70, 76]
      else if c = 64259 then [70, 70, 73]
      else if c = 64260 then [70, 70, 76]
      else if c = 64261 then [83, 84]
      else if c = 64262 then [83, 84]
      else [c])"

definition toUpperCase :: "jsstring \<Rightarrow> jsstring" where
  "toUpperCase s = concat (map upperChar s)"

definition lowerChar :: "jschar \<Rightarrow> jsstring" where
  "lowerChar c =
     (if isUpperAZ c then [c + 32]
      else if c = 304 then [105, 775]
      else if c = 8490 then [107]
      else [c])"

definition toLowerCase :: "jsstring \<Rightarrow> jsstring" where
  "toLowerCase s = concat (map lowerChar s)"

text \<open>\<open>s.replace(c, '')\<close> with a string pattern: the first occurrence only.\<close>

fun removeFirst :: "jschar \<Rightarrow> jsstring \<Rightarrow> jsstring" where
  "removeFirst c [] = []"
| "removeFirst c (x # xs) = (if x = c then xs else x # removeFirst c xs)"

text \<open>\<open>String(n)\<close> for a non-negative integer.\<close>

fun natToString :: "nat \<Rightarrow> jsstring" where
  "natToString n =
     (if n < 10 then [48 + n] else natToString (n div 10) @ [48 + n mod 10])"

declare natToString.simps [simp del]

subsection \<open>Global replacements\<close>

text \<open>
  \<open>s.replace(/p/g, r)\<close> for a literal, non-empty pattern \<open>p\<close>: leftmost matches,
  not overlapping.
\<close>

function replaceAll :: "jsstring \<Rightarrow> jsstring \<Rightarrow> jsstring \<Rightarrow> jsstring" where
  "replaceAll p r s =
     (if p \<noteq> [] \<and> length p \<le> length s \<and> take (length p) s = p
        then r @ replaceAll p r (drop (length p) s)
      else (case s of [] \<Rightarrow> [] | c # cs \<Rightarrow> c # replaceAll p r cs))"
  by pat_completeness auto
termination
proof (relation "measure (\<lambda>(p, r, s). length s)")
  fix p r s :: jsstring
  assume "p \<noteq> [] \<and> length p \<le> length s \<and> take (length p) s = p"
  then have "0 < length p" and "length p \<le> length s"
    by simp_all
  then have "length s - length p < length s"
    by arith
  then show "((p, r, drop (length p) s), p, r, s) \<in> measure (\<lambda>(p, r, s). length s)"
    by simp
qed auto

declare replaceAll.simps [simp del]

text \<open>
  \<open>s.replace(/\([^)]*\)/g, '')\<close>: an opening parenthesis with a closing one
  somewhere after it is removed together with everything up to the nearest closing one.
\<close>

function stripParens :: "jsstring \<Rightarrow> jsstring" where
  "stripParens s =
     (case s of
        [] \<Rightarrow> []
      | c # cs \<Rightarrow>
          if c = 40 \<and> 41 \<in> set cs
            then stripParens (tl (dropWhile (\<lambda>x. x \<noteq> 41) cs))
          else c # stripParens cs)"
  by pat_completeness auto
termination
proof (relation "measure length")
  fix s :: jsstring and c cs
  assume "s = c # cs" "c = 40 \<and> 41 \<in> set cs"
  have "length (tl (dropWhile (\<lambda>x. x \<noteq> 41) cs)) \<le> length cs"
    using length_dropWhile_le [of "\<lambda>x. x \<noteq> 41" cs] by simp
  then show "(tl (dropWhile (\<lambda>x. x \<noteq> 41) cs), s) \<in> measure length"
    using \<open>s = c # cs\<close> by simp
qed auto

declare stripParens.simps [simp del]

text \<open>\<open>s.replace(/\s+/g, ' ')\<close>: every maximal run of white space becomes one space.\<close>

function collapseSpaces :: "jsstring \<Rightarrow> jsstring" where
  "collapseSpaces s =
     (case s of
        [] \<Rightarrow> []
      | c # cs \<Rightarrow>
          if isWhiteSpace c then 32 # collapseSpaces (dropWhile isWhiteSpace cs)
          else c # collapseSpaces cs)"
  by pat_completeness auto
termination
proof (relation "measure length")
  fix s :: jsstring and c cs
  assume "s = c # cs" "isWhiteSpace c"
  have "length (dropWhile isWhiteSpace cs) \<le> length cs"
    by (rule length_dropWhile_le)
  then show "(dropWhile isWhiteSpace cs, s) \<in> measure length"
    using \<open>s = c # cs\<close> by simp
qed auto

declare collapseSpaces.simps [simp del]

text \<open>
  \<open>s.replace(/\s+\n/g, '\n')\<close>. At a white-space character the greedy \<open>\s+\<close>
  takes the whole run of white space and gives characters back until a line feed
  follows: there is a match when the run has a line feed after its first character, and
  the match ends with the last line feed of the run.
\<close>

definition wsNlMatch :: "jsstring \<Rightarrow> nat" where
  "wsNlMatch s =
     (let run = takeWhile isWhiteSpace s
      in if 10 \<in> set (tl run)
           then length run - length (takeWhile (\<lambda>x. x \<noteq> 10) (rev run))
         else 0)"

function replaceWsNl :: "jsstring \<Rightarrow> jsstring" where
  "replaceWsNl s =
     (case s of
        [] \<Rightarrow> []
      | c # cs \<Rightarrow>
          if 0 < wsNlMatch s then 10 # replaceWsNl (drop (wsNlMatch s) s)
          else c # replaceWsNl cs)"
  by pat_completeness auto
termination
  by (relation "measure length") auto

declare replaceWsNl.simps [simp del]

subsection \<open>Anchored regular expressions\<close>

text \<open>
  The regular expressions the parsers test a line with all start with \<open>^\<close> and are
  sequences of items: an ordered alternation of literals, or a character class with a
  quantifier, greedy or lazy. \<open>rmatch\<close> is the backtracking matcher of JavaScript on
  such a sequence: it returns the text each item matched in the first successful
  attempt (the order in which the alternatives and the repetition counts are tried is
  the engine's), so a capture group is the entry of its item. The flag of \<open>Lit\<close> is
  the \<open>i\<close> flag; the second argument of \<open>rmatch\<close> says whether the expression ends
  with \<open>$\<close>.
\<close>

datatype item =
    Lit bool "jsstring list"
  | Rep "jschar \<Rightarrow> bool" nat "nat option" bool

text \<open>
  Canonicalisation of a character under the \<open>i\<close> flag (no unicode flag): a code unit
  at or above 128 never becomes an ASCII character, so against the ASCII literals of
  the source only the two cases of an ASCII letter are identified.
\<close>

definition canon :: "jschar \<Rightarrow> jschar" where
  "canon c = (if isLowerAZ c then c - 32 else c)"

definition litMatch :: "bool \<Rightarrow> jsstring \<Rightarrow> jsstring \<Rightarrow> bool" where
  "litMatch ci a s =
     (length a \<le> length s \<and>
      (if ci then map canon (take (length a) s) = map canon a
       else take (length a) s = a))"

definition counts :: "(jschar \<Rightarrow> bool) \<Rightarrow> nat \<Rightarrow> nat option \<Rightarrow> bool \<Rightarrow> jsstring \<Rightarrow> nat list" where
  "counts p lo hi greedy s =
     (let m = length (takeWhile p s);
          m' = (case hi of None \<Rightarrow> m | Some h \<Rightarrow> min m h)
      in if greedy then rev [lo..<Suc m'] else [lo..<Suc m'])"

function (sequential) rmatch :: "item list \<Rightarrow> bool \<Rightarrow> jsstring \<Rightarrow> jsstring list option"
  and tryLits :: "bool \<Rightarrow> jsstring list \<Rightarrow> item list \<Rightarrow> bool \<Rightarrow> jsstring \<Rightarrow> jsstring list option"
  and tryCounts :: "nat list \<Rightarrow> item list \<Rightarrow> bool \<Rightarrow> jsstring \<Rightarrow> jsstring list option"
where
  "rmatch [] e s = (if e \<and> s \<noteq> [] then None else Some [])"
| "rmatch (Lit ci alts # r) e s = tryLits ci alts r e s"
| "rmatch (Rep p lo hi greedy # r) e s = tryCounts (counts p lo hi greedy s) r e s"
| "tryLits ci [] r e s = None"
| "tryLits ci (a # as) r e s =
     (if litMatch ci a s
      then (case rmatch r e (drop (length a) s) of
              Some m \<Rightarrow> Some (take (length a) s # m)
            | None \<Rightarrow> tryLits ci as r e s)
      else tryLits ci as r e s)"
| "tryCounts [] r e s = None"
| "tryCounts (n # ns) r e s =
     (case rmatch r e (drop n s) of
        Some m \<Rightarrow> Some (take n s # m)
      | None \<Rightarrow> tryCounts ns r e s)"
  by pat_completeness auto
termination
  by (relation "inv_image (less_than <*lex*> less_than)
        (\<lambda>x. case x of
               Inl (r, e, s) \<Rightarrow> (length r, 0)
             | Inr (Inl (ci, alts, r, e, s)) \<Rightarrow> (length r, Suc (length alts))
             | Inr (Inr (ns, r, e, s)) \<Rightarrow> (length r, Suc (length ns)))") auto

definition rtest :: "item list \<Rightarrow> bool \<Rightarrow> jsstring \<Rightarrow> bool" where
  "rtest r e s = (rmatch r e s \<noteq> None)"

abbreviation plus :: "(jschar \<Rightarrow> bool) \<Rightarrow> item" where
  "plus p \<equiv> Rep p 1 None True"

abbreviation star :: "(jschar \<Rightarrow> bool) \<Rightarrow> item" where
  "star p \<equiv> Rep p 0 None True"

abbreviation one :: "(jschar \<Rightarrow> bool) \<Rightarrow> item" where
  "one p \<equiv> Rep p 1 (Some 1) True"

abbreviation opt :: "(jschar \<Rightarrow> bool) \<Rightarrow> item" where
  "opt p \<equiv> Rep p 0 (Some 1) True"


section \<open>The hybrid page parser (page.parser.js)\<close>

subsection \<open>Line predicates\<close>

definition prefixes :: item where
  "prefixes = Lit True [js ''INT.'', js ''INT'', js ''EXT.'', js ''EXT'',
                        js ''INT/EXT.'', js ''INT/EXT'', js ''I/E.'', js ''I/E'']"

definition times :: item where
  "times = Lit True [js ''DAY'', js ''NIGHT'', js ''LATER'', js ''MORNING'', js ''EVENING'',
                     js ''DAWN'', js ''DUSK'', js ''CONTINUOUS'', js ''SAME TIME'',
                     js ''MOMENTS LATER'']"

text \<open>The class of the three dashes: hyphen, en dash, em dash.\<close>

definition isDash :: "jschar \<Rightarrow> bool" where
  "isDash c = (c = 45 \<or> c = 8211 \<or> c = 8212)"

text \<open>The class \<open>[A-Z\s']\<close> under the \<open>i\<close> flag.\<close>

definition headingChar :: "jschar \<Rightarrow> bool" where
  "headingChar c = (isUpperAZ c \<or> isLowerAZ c \<or> isWhiteSpace c \<or> c = 39)"

definition isSceneHeading :: "jsstring \<Rightarrow> bool" where
  "isSceneHeading line =
     (let pattern1 = [prefixes, plus isWhiteSpace, plus dot, star isWhiteSpace, one isDash,
                      star isWhiteSpace, times];
          pattern2 = [prefixes, plus isWhiteSpace, plus dot, one (\<lambda>c. c = 46),
                      star isWhiteSpace, times];
          pattern3 = [prefixes, plus isWhiteSpace, Rep headingChar 3 None True]
      in rtest pattern1 False line \<or> rtest pattern2 False line \<or> rtest pattern3 False line)"

record SceneData =
  sd_intExt :: jsstring
  sd_location :: jsstring
  sd_time :: jsstring

definition parseSceneHeading :: "jsstring \<Rightarrow> SceneData" where
  "parseSceneHeading heading =
     (let pattern1 = [prefixes, plus isWhiteSpace, Rep dot 1 None False, star isWhiteSpace,
                      one isDash, star isWhiteSpace, times]
      in case rmatch pattern1 False heading of
           Some match1 \<Rightarrow>
             \<lparr>sd_intExt = toUpperCase (removeFirst 46 (match1 ! 0)),
              sd_location = trim (match1 ! 2),
              sd_time = toUpperCase (match1 ! 6)\<rparr>
         | None \<Rightarrow>
             (let pattern2 = [prefixes, plus isWhiteSpace, Rep dot 1 None False,
                              one (\<lambda>c. c = 46), star isWhiteSpace, times]
              in case rmatch pattern2 False heading of
                   Some match2 \<Rightarrow>
                     \<lparr>sd_intExt = toUpperCase (removeFirst 46 (match2 ! 0)),
                      sd_location = trim (match2 ! 2),
                      sd_time = toUpperCase (match2 ! 5)\<rparr>
                 | None \<Rightarrow>
                     (let pattern3 = [prefixes, plus isWhiteSpace, plus dot]
                      in case rmatch pattern3 False heading of
                           Some match3 \<Rightarrow>
                             \<lparr>sd_intExt = toUpperCase (removeFirst 46 (match3 ! 0)),
                              sd_location = trim (match3 ! 2),
                              sd_time = js ''DAY''\<rparr>
                         | None \<Rightarrow>
                             \<lparr>sd_intExt = js ''INT'', sd_location = js ''Unknown'',
                              sd_time = js ''DAY''\<rparr>)))"

definition isParenthetical :: "jsstring \<Rightarrow> bool" where
  "isParenthetical line = (startsWith line [40] \<and> endsWith line [41])"

definition isPageNumber :: "jsstring \<Rightarrow> bool" where
  "isPageNumber line =
     rtest [Rep isDigit 1 (Some 3) True, opt (\<lambda>c. c = 46)] True (trim line)"

definition isPageFooter :: "jsstring \<Rightarrow> bool" where
  "isPageFooter line =
     (rtest [star (\<lambda>c. c = 45), star isWhiteSpace, plus isDigit, plus isWhiteSpace,
             Lit True [js ''of''], plus isWhiteSpace, plus isDigit, star isWhiteSpace,
             star (\<lambda>c. c = 45)] True line \<or>
      rtest [Lit True [js ''Page''], plus isWhiteSpace, plus isDigit] True line)"

definition transitions :: "jsstring list" where
  "transitions = [js ''FADE OUT'', js ''FADE IN'', js ''CUT TO'', js ''DISSOLVE TO'',
                  js ''SMASH CUT TO'', js ''MATCH CUT TO'', js ''JUMP CUT TO'', js ''WIPE TO'',
                  js ''IRIS OUT'', js ''IRIS IN'', js ''THE END'', js ''CONTINUED'']"

definition isTransition :: "jsstring \<Rightarrow> bool" where
  "isTransition line = list_ex (\<lambda>t. includesStr (toUpperCase line) t) transitions"

text \<open>The class \<open>[A-Z\s'.-]\<close>.\<close>

definition nameChar :: "jschar \<Rightarrow> bool" where
  "nameChar c = (isUpperAZ c \<or> isWhiteSpace c \<or> c = 39 \<or> c = 46 \<or> c = 45)"

definition characterPattern :: "jsstring \<Rightarrow> bool" where
  "characterPattern s = rtest [one isUpperAZ, star nameChar] True s"

definition initialsPattern :: "jsstring \<Rightarrow> bool" where
  "initialsPattern s =
     rtest [one isUpperAZ, one (\<lambda>c. c = 46), one isUpperAZ, opt (\<lambda>c. c = 46)] False s"

definition looksLikeCharacterName :: "jsstring \<Rightarrow> bool" where
  "looksLikeCharacterName line =
     (let trimmed = trim line
      in if length trimmed < 2 \<or> 50 < length trimmed then False
         else let withoutParens = trim (stripParens trimmed)
              in if withoutParens = [] \<or> \<not> list_ex isUpperAZ withoutParens then False
                 else if \<not> characterPattern withoutParens then False
                 else if 46 \<in> set withoutParens \<and> \<not> initialsPattern withoutParens then False
                 else if isSceneHeading trimmed \<or> isTransition trimmed then False
                 else True)"

text \<open>
  \<open>isCharacterName\<close> reads the line after the current one in \<open>allLines\<close>; the
  entries of \<open>allLines\<close> are strings or objects with a \<open>text\<close> field, and the model
  passes their texts.
\<close>

definition isCharacterName :: "jsstring \<Rightarrow> jsstring list \<Rightarrow> nat \<Rightarrow> bool" where
  "isCharacterName line allLines currentIndex =
     (let trimmed = trim line
      in if trimmed = [] then False
         else if length trimmed < 2 \<or> 50 < length trimmed then False
         else if isPageNumber trimmed \<or> isPageFooter trimmed then False
         else if isSceneHeading trimmed \<or> isTransition trimmed then False
         else let withoutParens = trim (stripParens trimmed)
              in if withoutParens = [] \<or> length withoutParens < 2 then False
                 else if \<not> list_ex isUpperAZ withoutParens then False
                 else if \<not> characterPattern withoutParens then False
                 else if 46 \<in> set withoutParens \<and> \<not> initialsPattern withoutParens then False
                 else let nextLineIndex = currentIndex + 1
                      in if length allLines \<le> nextLineIndex then False
                         else let nextText = trim (allLines ! nextLineIndex)
                              in if nextText = [] then False
                                 else if looksLikeCharacterName nextText then False
                                 else if isSceneHeading nextText then False
                                 else True)"

definition isLikelyActionLine :: "jsstring \<Rightarrow> bool" where
  "isLikelyActionLine line =
     (let trimmed = trim line
      in if looksLikeCharacterName trimmed then False
         else let isAllCaps = rtest [plus nameChar] True trimmed;
                  startsWithCap = rtest [one isUpperAZ] False trimmed;
                  hasLowercase = list_ex isLowerAZ trimmed
              in if isAllCaps \<and> 60 < length trimmed then True
                 else if startsWithCap \<and> hasLowercase \<and> 40 < length trimmed then True
                 else False)"

definition cleanCharacterName :: "jsstring \<Rightarrow> jsstring" where
  "cleanCharacterName line =
     trim (replaceAll [226, 8364, 8482] [39] (collapseSpaces (stripParens line)))"

definition cleanScriptText :: "jsstring \<Rightarrow> jsstring" where
  "cleanScriptText text0 =
     trim
      (replaceAll [112, 105, 195, 185] [112, 105, 249]
      (replaceAll [195, 185] [249]
      (replaceAll [195, 178] [242]
      (replaceAll [195, 172] [236]
      (replaceAll [195, 169] [233]
      (replaceAll [195, 168] [232]
      (replaceAll [195, 32] [224]
      (replaceAll [226, 8364, 34] [8211]
      (replaceAll [226, 8364, 34] [8212]
      (replaceAll [226, 8364] [34]
      (replaceAll [226, 8364, 339] [34]
      (replaceAll [226, 8364, 8482] [39]
      (replaceWsNl
      (replaceAll [9] (js ''    '')
      (replaceAll [13] [10]
      (replaceAll [13, 10] [10] text0))))))))))))))))"


subsection \<open>Pages\<close>

datatype LineType = scene_heading | transition | parenthetical | character_cue | dialogue_or_action

record FormattedLine =
  f_index :: nat
  f_type :: LineType
  f_text :: jsstring

record Page =
  pageNumber :: nat
  rawText :: jsstring
  formatted :: "FormattedLine list"

definition detectLineType :: "jsstring \<Rightarrow> jsstring list \<Rightarrow> nat \<Rightarrow> LineType" where
  "detectLineType line allLines currentIndex =
     (if isSceneHeading line then scene_heading
      else if isTransition line then transition
      else if isParenthetical line then parenthetical
      else if isCharacterName line allLines currentIndex then character_cue
      else dialogue_or_action)"

definition analyzePageLines :: "jsstring \<Rightarrow> FormattedLine list" where
  "analyzePageLines pageText =
     (let lines = filter (\<lambda>l. l \<noteq> [] \<and> \<not> isPageNumber l \<and> \<not> isPageFooter l)
                         (map trim (splitOn 10 pageText))
      in map (\<lambda>(index, line).
                \<lparr>f_index = index, f_type = detectLineType line lines index, f_text = line\<rparr>)
             (enumerate 0 lines))"

text \<open>
  The chunks between form feeds that are not blank, and the test \<open>extractPages\<close>
  makes before it uses them. \<open>totalPages\<close> is the page count the PDF library
  reports, a natural number; \<open>n <= totalPages * 1.5\<close> on integers is
  \<open>2 * n \<le> 3 * totalPages\<close>.
\<close>

definition formFeedPages :: "jsstring \<Rightarrow> jsstring list" where
  "formFeedPages text0 = filter (\<lambda>t. trim t \<noteq> []) (splitOn 12 text0)"

definition usesFormFeed :: "jsstring \<Rightarrow> nat \<Rightarrow> bool" where
  "usesFormFeed text0 totalPages =
     (1 < length (formFeedPages text0) \<and> 2 * length (formFeedPages text0) \<le> 3 * totalPages)"

definition formFeedSplit :: "jsstring \<Rightarrow> Page list" where
  "formFeedSplit text0 =
     map (\<lambda>(index, content).
            \<lparr>pageNumber = index + 1, rawText = trim content,
             formatted = analyzePageLines (trim content)\<rparr>)
         (enumerate 0 (formFeedPages text0))"

text \<open>
  The fallback. \<open>Math.ceil(lines.length / totalPages)\<close> is computed on integers;
  with \<open>totalPages = 0\<close> the loop body never runs and the quotient is not used.
\<close>

definition estimatedPages :: "jsstring \<Rightarrow> nat \<Rightarrow> Page list" where
  "estimatedPages text0 totalPages =
     (let lines = splitOn 10 text0;
          linesPerPage = (length lines + totalPages - 1) div totalPages
      in map (\<lambda>i. let start = i * linesPerPage;
                       stop = start + linesPerPage;
                       pageLines = slice start stop lines;
                       content = trim (join [10] pageLines)
                   in \<lparr>pageNumber = i + 1, rawText = content,
                       formatted = analyzePageLines content\<rparr>)
             [0..<totalPages])"

definition extractPages :: "jsstring \<Rightarrow> nat \<Rightarrow> Page list" where
  "extractPages text0 totalPages =
     (if usesFormFeed text0 totalPages then formFeedSplit text0
      else estimatedPages text0 totalPages)"

subsection \<open>Scenes\<close>

record Dialogue =
  character :: jsstring
  dtext :: jsstring

text \<open>
  \<open>charactersInScene\<close> is created as a Set, filled with \<open>add\<close> while the loop
  runs, and replaced by \<open>Array.from\<close> of itself in every scene once the loop has
  ended. A Set is given by its elements in insertion order; the constructor says which
  of the two kinds of object the field holds.
\<close>

datatype 'a collection = JSSet "'a list" | JSArray "'a list"

fun elements :: "'a collection \<Rightarrow> 'a list" where
  "elements (JSSet xs) = xs"
| "elements (JSArray xs) = xs"

fun arrayFrom :: "'a collection \<Rightarrow> 'a collection" where
  "arrayFrom c = JSArray (elements c)"

text \<open>
  A scene while it is being filled, and a scene once it is pushed: \<open>fullText\<close>,
  \<open>summary\<close> and \<open>props\<close> are set when the scene is pushed.
\<close>

record OpenScene =
  sceneNumber :: nat
  scenePageNumber :: nat
  heading :: jsstring
  location :: jsstring
  intExt :: jsstring
  timeOfDay :: jsstring
  dialogue :: "Dialogue list"
  actions :: "jsstring list"
  actors :: "jsstring list"
  charactersInScene :: "jsstring collection"

record Scene = OpenScene +
  fullText :: jsstring
  summary :: jsstring
  props :: "jsstring list"

definition setAdd :: "'a list \<Rightarrow> 'a \<Rightarrow> 'a list" where
  "setAdd xs x = (if x \<in> set xs then xs else xs @ [x])"

text \<open>\<open>Set.prototype.add\<close>; an array has no such method.\<close>

fun add :: "'a collection \<Rightarrow> 'a \<Rightarrow> 'a collection" where
  "add (JSSet xs) x = JSSet (setAdd xs x)"

definition propKeywords :: "jsstring list" where
  "propKeywords =
     [js ''glasses'', js ''phone'', js ''bottle'', js ''gun'', js ''knife'', js ''car'',
      js ''train'', js ''computer'', js ''scanner'', js ''qr'', js ''kiosk'', js ''robot'',
      js ''tray'', js ''lift'', js ''elevator'', js ''apron'', js ''luggage'', js ''locker'',
      js ''juice'', js ''beer'', js ''metro'', js ''sofa'', js ''camera'', js ''dress'',
      js ''frame'', js ''machine'', js ''caviar'', js ''vending'', js ''jet'',
      js ''airhostess'']"

text \<open>
  \<open>new RegExp('\\b' + prop + '\\b', 'i').test(s)\<close> for a keyword of letters: the
  keyword occurs, in either case, with no word character before it and none after it.
\<close>

fun wordSearch :: "bool \<Rightarrow> jsstring \<Rightarrow> jsstring \<Rightarrow> bool" where
  "wordSearch prevWord kw [] = False"
| "wordSearch prevWord kw (c # cs) =
     ((\<not> prevWord \<and> litMatch True kw (c # cs) \<and>
       (case drop (length kw) (c # cs) of [] \<Rightarrow> True | d # ds \<Rightarrow> \<not> isWordChar d))
      \<or> wordSearch (isWordChar c) kw cs)"

definition capitalize :: "jsstring \<Rightarrow> jsstring" where
  "capitalize prop = toUpperCase (take 1 prop) @ drop 1 prop"

definition extractProps :: "jsstring list \<Rightarrow> jsstring list" where
  "extractProps lines =
     foldl (\<lambda>props line.
              foldl (\<lambda>ps prop. if wordSearch False prop (toLowerCase line)
                                then setAdd ps (capitalize prop) else ps)
                    props propKeywords)
           [] lines"

definition generateSceneSummary :: "OpenScene \<Rightarrow> jsstring" where
  "generateSceneSummary scene =
     (let actionText = join [32] (take 3 (actions scene));
          dialogueText =
            join [32] (map (\<lambda>d. character d @ js '': '' @ take 50 (dtext d) @ js ''...'')
                           (take 2 (dialogue scene)));
          s = trim (actionText @ [32] @ dialogueText)
      in if s = [] then js ''No summary available'' else s)"

definition sealScene :: "OpenScene \<Rightarrow> jsstring list \<Rightarrow> Scene" where
  "sealScene currentScene sceneLines =
     \<lparr>sceneNumber = sceneNumber currentScene,
      scenePageNumber = scenePageNumber currentScene,
      heading = heading currentScene,
      location = location currentScene,
      intExt = intExt currentScene,
      timeOfDay = timeOfDay currentScene,
      dialogue = dialogue currentScene,
      actions = actions currentScene,
      actors = actors currentScene,
      charactersInScene = charactersInScene currentScene,
      fullText = join [10] sceneLines,
      summary = generateSceneSummary currentScene,
      props = extractProps sceneLines\<rparr>"

record LineObj =
  l_text :: jsstring
  l_pageNumber :: nat

definition flattenPages :: "Page list \<Rightarrow> LineObj list" where
  "flattenPages pages =
     concat (map (\<lambda>page. map (\<lambda>line. \<lparr>l_text = line, l_pageNumber = pageNumber page\<rparr>)
                               (filter (\<lambda>l. l \<noteq> []) (map trim (splitOn 10 (rawText page)))))
                 pages)"

text \<open>
  The inner \<open>while\<close> loop of \<open>parseScenes\<close>, from index \<open>j\<close>: it returns the
  index it stops at, the dialogue lines and the scene lines.
\<close>

function collectDialogue ::
  "jsstring list \<Rightarrow> nat \<Rightarrow> jsstring list \<Rightarrow> jsstring list \<Rightarrow> nat \<times> jsstring list \<times> jsstring list"
where
  "collectDialogue allLines j dialogueLines sceneLines =
     (if j < length allLines then
        (let nextLine = trim (allLines ! j)
         in if nextLine = [] then collectDialogue allLines (j + 1) dialogueLines sceneLines
            else if isCharacterName nextLine allLines j \<or> isSceneHeading nextLine \<or>
                    isTransition nextLine \<or> isPageNumber nextLine \<or> isPageFooter nextLine
              then (j, dialogueLines, sceneLines)
            else if isParenthetical nextLine
              then collectDialogue allLines (j + 1) dialogueLines (sceneLines @ [nextLine])
            else if isLikelyActionLine nextLine then (j, dialogueLines, sceneLines)
            else collectDialogue allLines (j + 1) (dialogueLines @ [nextLine])
                   (sceneLines @ [nextLine]))
      else (j, dialogueLines, sceneLines))"
  by pat_completeness auto
termination
  by (relation "measure (\<lambda>(allLines, j, dialogueLines, sceneLines). length allLines - j)") auto

declare collectDialogue.simps [simp del]

lemma collectDialogue_ge: "j \<le> fst (collectDialogue allLines j dialogueLines sceneLines)"
proof (induction allLines j dialogueLines sceneLines rule: collectDialogue.induct)
  case (1 allLines j dialogueLines sceneLines)
  show ?case
    using "1.IH"
    by (subst collectDialogue.simps) (auto simp: Let_def intro: Suc_leD)
qed

record ParseState =
  scenes :: "Scene list"
  currentScene :: "OpenScene option"
  currentCharacter :: "jsstring option"
  sceneLines :: "jsstring list"

text \<open>The scenes pushed so far, with the current scene pushed too when there is one.\<close>

definition pushCurrent :: "ParseState \<Rightarrow> Scene list" where
  "pushCurrent st =
     (case currentScene st of
        Some cs \<Rightarrow> scenes st @ [sealScene cs (sceneLines st)]
      | None \<Rightarrow> scenes st)"

definition openScene :: "Scene list \<Rightarrow> LineObj \<Rightarrow> OpenScene" where
  "openScene scenes0 lineObj =
     (let sceneData = parseSceneHeading (l_text lineObj)
      in \<lparr>sceneNumber = length scenes0 + 1,
          scenePageNumber = l_pageNumber lineObj,
          heading = l_text lineObj,
          location = sd_location sceneData,
          intExt = sd_intExt sceneData,
          timeOfDay = sd_time sceneData,
          dialogue = [],
          actions = [],
          actors = [],
          charactersInScene = JSSet []\<rparr>)"

text \<open>
  One iteration of the \<open>for\<close> loop of \<open>parseScenes\<close> at index \<open>i\<close>: the
  index the loop goes on with (after \<open>i = j - 1; continue\<close> and the increment that is
  \<open>j\<close>) and the new state.
\<close>

definition loopBody :: "LineObj list \<Rightarrow> nat \<Rightarrow> ParseState \<Rightarrow> nat \<times> ParseState" where
  "loopBody allLines i st =
     (let lineObj = allLines ! i;
          line = l_text lineObj
      in if isPageNumber line \<or> isPageFooter line then (i + 1, st)
         else if isSceneHeading line then
           (i + 1,
            \<lparr>scenes = pushCurrent st,
             currentScene = Some (openScene (pushCurrent st) lineObj),
             currentCharacter = None,
             sceneLines = [line]\<rparr>)
         else (case currentScene st of
                 None \<Rightarrow> (i + 1, st)
               | Some cs \<Rightarrow>
                   if isCharacterName line (map l_text allLines) i then
                     (let characterName = cleanCharacterName line;
                          cs1 = cs\<lparr>charactersInScene := add (charactersInScene cs) characterName,
                                   actors := setAdd (actors cs) characterName\<rparr>;
                          r = collectDialogue (map l_text allLines) (i + 1) []
                                (sceneLines st @ [line]);
                          dialogueLines = fst (snd r);
                          cs2 = (if dialogueLines \<noteq> []
                                 then cs1\<lparr>dialogue := dialogue cs1 @
                                            [\<lparr>character = characterName,
                                              dtext = join [32] dialogueLines\<rparr>]\<rparr>
                                 else cs1)
                      in (fst r,
                          st\<lparr>currentScene := Some cs2,
                              currentCharacter := Some characterName,
                              sceneLines := snd (snd r)\<rparr>))
                   else
                     (i + 1,
                      st\<lparr>currentScene :=
                            Some (if \<not> isTransition line \<and> \<not> looksLikeCharacterName line
                                  then cs\<lparr>actions := actions cs @ [line]\<rparr> else cs),
                          sceneLines := sceneLines st @ [line]\<rparr>)))"

lemma loopBody_progress: "i < fst (loopBody allLines i st)"
  using collectDialogue_ge [of "i + 1" "map l_text allLines" "[]"]
  by (auto simp: loopBody_def Let_def less_eq_Suc_le split: option.split)

function parseLoop :: "LineObj list \<Rightarrow> nat \<Rightarrow> ParseState \<Rightarrow> ParseState" where
  "parseLoop allLines i st =
     (if length allLines \<le> i then st
      else parseLoop allLines (fst (loopBody allLines i st)) (snd (loopBody allLines i st)))"
  by pat_completeness auto
termination
proof (relation "measure (\<lambda>(allLines, i, st). length allLines - i)")
  fix allLines :: "LineObj list" and i :: nat and st :: ParseState
  assume "\<not> length allLines \<le> i"
  then show "((allLines, fst (loopBody allLines i st), snd (loopBody allLines i st)),
              allLines, i, st) \<in> measure (\<lambda>(allLines, i, st). length allLines - i)"
    using loopBody_progress [of i allLines st]
    by (cases "loopBody allLines i st") auto
qed simp

declare parseLoop.simps [simp del]

text \<open>
  \<open>parseScenes\<close>: the loop from the empty state, the push of the last scene, and the
  final \<open>scenes.forEach\<close> that assigns \<open>Array.from(scene.charactersInScene)\<close> to
  \<open>charactersInScene\<close> of every scene of the list.
\<close>

definition pushedScenes :: "Page list \<Rightarrow> Scene list" where
  "pushedScenes pages =
     pushCurrent
       (parseLoop (flattenPages pages) 0
          \<lparr>scenes = [], currentScene = None, currentCharacter = None, sceneLines = []\<rparr>)"

definition parseScenes :: "Page list \<Rightarrow> Scene list" where
  "parseScenes pages =
     map (\<lambda>scene. scene\<lparr>charactersInScene := arrayFrom (charactersInScene scene)\<rparr>)
         (pushedScenes pages)"


subsection \<open>Characters and metadata\<close>

text \<open>
  \<open>characterMap\<close> is a Map from names to records; the model is an association list
  in insertion order, which is the order of \<open>characterMap.values()\<close>.
\<close>

record CharAcc =
  a_name :: jsstring
  a_lines :: nat
  a_scenes :: "nat list"
  a_dialogue :: "jsstring list"

record Character =
  name :: jsstring
  lines :: nat
  sceneCount :: nat
  sceneIds :: "jsstring list"
  c_dialogue :: "jsstring list"

definition mapHas :: "('k \<times> 'v) list \<Rightarrow> 'k \<Rightarrow> bool" where
  "mapHas m k = (k \<in> set (map fst m))"

fun mapUpdate :: "'k \<Rightarrow> ('v \<Rightarrow> 'v) \<Rightarrow> ('k \<times> 'v) list \<Rightarrow> ('k \<times> 'v) list" where
  "mapUpdate k f [] = []"
| "mapUpdate k f ((k', v) # m) =
     (if k' = k then (k', f v) # m else (k', v) # mapUpdate k f m)"

definition actorStep :: "nat \<Rightarrow> (jsstring \<times> CharAcc) list \<Rightarrow> jsstring \<Rightarrow> (jsstring \<times> CharAcc) list" where
  "actorStep sceneIndex m charName =
     mapUpdate charName
       (\<lambda>ch. if sceneIndex \<in> set (a_scenes ch) then ch
              else ch\<lparr>a_scenes := a_scenes ch @ [sceneIndex]\<rparr>)
       (if mapHas m charName then m
        else m @ [(charName, \<lparr>a_name = charName, a_lines = 0, a_scenes = [], a_dialogue = []\<rparr>)])"

definition dialogueStep :: "(jsstring \<times> CharAcc) list \<Rightarrow> Dialogue \<Rightarrow> (jsstring \<times> CharAcc) list" where
  "dialogueStep m d =
     (if mapHas m (character d)
      then mapUpdate (character d)
             (\<lambda>ch. ch\<lparr>a_lines := a_lines ch + 1, a_dialogue := a_dialogue ch @ [dtext d]\<rparr>) m
      else m)"

definition sceneStep :: "(jsstring \<times> CharAcc) list \<Rightarrow> nat \<times> Scene \<Rightarrow> (jsstring \<times> CharAcc) list" where
  "sceneStep m x =
     foldl dialogueStep (foldl (actorStep (fst x)) m (actors (snd x))) (dialogue (snd x))"

definition characterMap :: "Scene list \<Rightarrow> (jsstring \<times> CharAcc) list" where
  "characterMap scenes0 = foldl sceneStep [] (enumerate 0 scenes0)"

definition extractCharacters :: "Scene list \<Rightarrow> Character list" where
  "extractCharacters scenes0 =
     map (\<lambda>ch. \<lparr>name = a_name ch, lines = a_lines ch, sceneCount = length (a_scenes ch),
                 sceneIds = map natToString (a_scenes ch), c_dialogue = a_dialogue ch\<rparr>)
         (map snd (characterMap scenes0))"

record Metadata =
  totalPages :: nat
  m_scenes :: nat
  m_characters :: nat
  locations :: nat
  timePeriods :: nat
  totalDialogue :: nat
  totalActions :: nat
  needsReview :: bool

definition generateMetadata :: "Page list \<Rightarrow> Scene list \<Rightarrow> Character list \<Rightarrow> Metadata" where
  "generateMetadata pages scenes0 characters =
     (let uniqueLocations = remdups (filter (\<lambda>l. l \<noteq> []) (map location scenes0));
          uniqueTimes = remdups (filter (\<lambda>l. l \<noteq> []) (map timeOfDay scenes0))
      in \<lparr>totalPages = length pages,
          m_scenes = length scenes0,
          m_characters = length characters,
          locations = length uniqueLocations,
          timePeriods = length uniqueTimes,
          totalDialogue = foldl (\<lambda>sum s. sum + length (dialogue s)) 0 scenes0,
          totalActions = foldl (\<lambda>sum s. sum + length (actions s)) 0 scenes0,
          needsReview = True\<rparr>)"

record ParseResult =
  r_pages :: "Page list"
  r_scenes :: "Scene list"
  r_characters :: "Character list"
  r_metadata :: Metadata

text \<open>
  \<open>parse\<close> after the PDF library has returned the text and the page count of the
  file.
\<close>

definition parse :: "jsstring \<Rightarrow> nat \<Rightarrow> ParseResult" where
  "parse text0 totalPages0 =
     (let cleanedText = cleanScriptText text0;
          pages = extractPages cleanedText totalPages0;
          scenes0 = parseScenes pages;
          characters = extractCharacters scenes0;
          metadata = generateMetadata pages scenes0 characters
      in \<lparr>r_pages = pages, r_scenes = scenes0, r_characters = characters,
          r_metadata = metadata\<rparr>)"

section \<open>The document parser (document.parser.js)\<close>

text \<open>
  \<open>isSceneHeading\<close>, \<open>isParenthetical\<close>, \<open>isPageNumber\<close> and
  \<open>isPageFooter\<close> have the same text in this file as in the hybrid parser, and the
  model uses the definitions above for them. The other functions differ.
\<close>

definition doc_cleanScriptText :: "jsstring \<Rightarrow> jsstring" where
  "doc_cleanScriptText text0 =
      replaceAll [112, 105, 195, 185] [112, 105, 249]
      (replaceAll [195, 185] [249]
      (replaceAll [195, 178] [242]
      (replaceAll [195, 172] [236]
      (replaceAll [195, 169] [233]
      (replaceAll [195, 168] [232]
      (replaceAll [195, 32] [224]
      (replaceAll [226, 8364, 34] [8211]
      (replaceAll [226, 8364, 34] [8212]
      (replaceAll [226, 8364] [34]
      (replaceAll [226, 8364, 339] [34]
      (replaceAll [226, 8364, 8482] [39]
      (replaceAll [9] [9]
      (replaceAll [13] [10]
      (replaceAll [13, 10] [10] text0))))))))))))))"

record TextPage =
  tp_pageNumber :: nat
  tp_rawText :: jsstring
  tp_lineCount :: nat

text \<open>
  \<open>extractTextPages\<close> tests the number of all chunks between form feeds, blank ones
  included, and drops the blank ones afterwards.
\<close>

definition doc_usesFormFeed :: "jsstring \<Rightarrow> nat \<Rightarrow> bool" where
  "doc_usesFormFeed text0 totalPages0 =
     (1 < length (splitOn 12 text0) \<and> 2 * length (splitOn 12 text0) \<le> 3 * totalPages0)"

definition doc_formFeedSplit :: "jsstring \<Rightarrow> TextPage list" where
  "doc_formFeedSplit text0 =
     map (\<lambda>(index, pageText).
            \<lparr>tp_pageNumber = index + 1, tp_rawText = doc_cleanScriptText pageText,
             tp_lineCount = length (splitOn 10 pageText)\<rparr>)
         (enumerate 0 (filter (\<lambda>p. trim p \<noteq> []) (splitOn 12 text0)))"

definition doc_estimatedPages :: "jsstring \<Rightarrow> nat \<Rightarrow> TextPage list" where
  "doc_estimatedPages text0 totalPages0 =
     (let allLines = splitOn 10 text0;
          linesPerPage = (length allLines + totalPages0 - 1) div totalPages0
      in map (\<lambda>i. let start = i * linesPerPage;
                       stop = start + linesPerPage;
                       pageLines = slice start stop allLines
                   in \<lparr>tp_pageNumber = i + 1,
                       tp_rawText = doc_cleanScriptText (join [10] pageLines),
                       tp_lineCount = length pageLines\<rparr>)
             [0..<totalPages0])"

definition extractTextPages :: "jsstring \<Rightarrow> nat \<Rightarrow> TextPage list" where
  "extractTextPages text0 totalPages0 =
     (if doc_usesFormFeed text0 totalPages0 then doc_formFeedSplit text0
      else doc_estimatedPages text0 totalPages0)"

definition doc_parseSceneHeading :: "jsstring \<Rightarrow> SceneData" where
  "doc_parseSceneHeading heading0 =
     (let pattern1 = [prefixes, plus isWhiteSpace, Rep dot 1 None False, star isWhiteSpace,
                      one isDash, star isWhiteSpace, times]
      in case rmatch pattern1 False heading0 of
           Some match1 \<Rightarrow>
             \<lparr>sd_intExt = toUpperCase (removeFirst 46 (match1 ! 0)),
              sd_location = trim (match1 ! 2),
              sd_time = toUpperCase (match1 ! 6)\<rparr>
         | None \<Rightarrow>
             \<lparr>sd_intExt = js ''INT'', sd_location = js ''Unknown'', sd_time = js ''DAY''\<rparr>)"

definition doc_transitions :: "jsstring list" where
  "doc_transitions = [js ''FADE OUT'', js ''FADE IN'', js ''CUT TO'', js ''DISSOLVE TO'',
                      js ''THE END'', js ''CONTINUED'']"

definition doc_isTransition :: "jsstring \<Rightarrow> bool" where
  "doc_isTransition line = list_ex (\<lambda>t. includesStr (toUpperCase line) t) doc_transitions"

definition doc_isCharacterName :: "jsstring \<Rightarrow> jsstring list \<Rightarrow> nat \<Rightarrow> bool" where
  "doc_isCharacterName line allLines currentIndex =
     (let trimmed = trim line
      in if length trimmed < 2 \<or> 50 < length trimmed then False
         else if isSceneHeading trimmed \<or> doc_isTransition trimmed then False
         else let withoutParens = trim (stripParens trimmed)
              in if withoutParens = [] \<or> \<not> list_ex isUpperAZ withoutParens then False
                 else if \<not> characterPattern withoutParens then False
                 else let nextLineIndex = currentIndex + 1
                      in if length allLines \<le> nextLineIndex then False
                         else let nextLine = trim (allLines ! nextLineIndex)
                              in if nextLine = [] \<or> isSceneHeading nextLine then False
                                 else True)"

definition doc_cleanCharacterName :: "jsstring \<Rightarrow> jsstring" where
  "doc_cleanCharacterName line = trim (collapseSpaces (stripParens line))"

definition doc_propKeywords :: "jsstring list" where
  "doc_propKeywords = [js ''glasses'', js ''phone'', js ''bottle'', js ''gun'', js ''knife'',
                       js ''car'', js ''computer'']"

definition extractPropsFromLine :: "jsstring \<Rightarrow> jsstring list" where
  "extractPropsFromLine line =
     map capitalize (filter (\<lambda>prop. wordSearch False prop line) doc_propKeywords)"

record DocOpenScene =
  doc_sceneNumber :: nat
  doc_pageNumber :: nat
  doc_heading :: jsstring
  doc_location :: jsstring
  doc_intExt :: jsstring
  doc_timeOfDay :: jsstring
  doc_dialogue :: "Dialogue list"
  doc_actions :: "jsstring list"
  doc_actors :: "jsstring list"
  doc_props :: "jsstring list"

record DocScene = DocOpenScene +
  doc_text :: jsstring
  doc_summary :: jsstring

definition doc_generateSceneSummary :: "DocOpenScene \<Rightarrow> jsstring" where
  "doc_generateSceneSummary scene =
     (let actionText = join [32] (take 3 (doc_actions scene));
          dialogueText =
            join [32] (map (\<lambda>d. character d @ js '': '' @ take 50 (dtext d) @ js ''...'')
                           (take 2 (doc_dialogue scene)));
          s = trim (actionText @ [32] @ dialogueText)
      in if s = [] then js ''No summary available'' else s)"

definition doc_sealScene :: "DocOpenScene \<Rightarrow> jsstring list \<Rightarrow> DocScene" where
  "doc_sealScene currentScene0 sceneLines0 =
     \<lparr>doc_sceneNumber = doc_sceneNumber currentScene0,
      doc_pageNumber = doc_pageNumber currentScene0,
      doc_heading = doc_heading currentScene0,
      doc_location = doc_location currentScene0,
      doc_intExt = doc_intExt currentScene0,
      doc_timeOfDay = doc_timeOfDay currentScene0,
      doc_dialogue = doc_dialogue currentScene0,
      doc_actions = doc_actions currentScene0,
      doc_actors = doc_actors currentScene0,
      doc_props = doc_props currentScene0,
      doc_text = join [10] sceneLines0,
      doc_summary = doc_generateSceneSummary currentScene0\<rparr>"

text \<open>
  The \<open>for\<close> loop that collects the dialogue text after a cue, from index \<open>j\<close> of the
  lines of the page.
\<close>

function doc_collectDialogue :: "jsstring list \<Rightarrow> nat \<Rightarrow> jsstring \<Rightarrow> jsstring" where
  "doc_collectDialogue lines0 j dialogueText =
     (if j < length lines0 then
        (let nextLine = trim (lines0 ! j)
         in if nextLine = [] then doc_collectDialogue lines0 (j + 1) dialogueText
            else if doc_isCharacterName nextLine lines0 j \<or> isSceneHeading nextLine
              then dialogueText
            else doc_collectDialogue lines0 (j + 1) (dialogueText @ nextLine @ [32]))
      else dialogueText)"
  by pat_completeness auto
termination
  by (relation "measure (\<lambda>(lines0, j, dialogueText). length lines0 - j)") auto

declare doc_collectDialogue.simps [simp del]

record DocState =
  ds_scenes :: "DocScene list"
  ds_currentScene :: "DocOpenScene option"
  ds_sceneLines :: "jsstring list"
  ds_sceneNumber :: nat

definition doc_pushCurrent :: "DocState \<Rightarrow> DocScene list" where
  "doc_pushCurrent st =
     (case ds_currentScene st of
        Some cs \<Rightarrow> ds_scenes st @ [doc_sealScene cs (ds_sceneLines st)]
      | None \<Rightarrow> ds_scenes st)"

text \<open>The callback of \<open>lines.forEach\<close> for one line of a page.\<close>

definition doc_lineStep :: "nat \<Rightarrow> jsstring list \<Rightarrow> DocState \<Rightarrow> nat \<times> jsstring \<Rightarrow> DocState" where
  "doc_lineStep pageNo lines0 st x =
     (let lineIndex = fst x;
          line = snd x;
          trimmed = trim line
      in if trimmed = [] \<or> isPageNumber trimmed \<or> isPageFooter trimmed then st
         else if isSceneHeading trimmed then
           (let sceneData = doc_parseSceneHeading trimmed
            in \<lparr>ds_scenes = doc_pushCurrent st,
                ds_currentScene =
                  Some \<lparr>doc_sceneNumber = ds_sceneNumber st,
                        doc_pageNumber = pageNo,
                        doc_heading = trimmed,
                        doc_location = sd_location sceneData,
                        doc_intExt = sd_intExt sceneData,
                        doc_timeOfDay = sd_time sceneData,
                        doc_dialogue = [],
                        doc_actions = [],
                        doc_actors = [],
                        doc_props = []\<rparr>,
                ds_sceneLines = [trimmed],
                ds_sceneNumber = ds_sceneNumber st + 1\<rparr>)
         else (case ds_currentScene st of
                 None \<Rightarrow> st
               | Some cs \<Rightarrow>
                   (let cs1 =
                          (if doc_isCharacterName trimmed lines0 lineIndex then
                             (let characterName = doc_cleanCharacterName trimmed;
                                  csA = cs\<lparr>doc_actors := setAdd (doc_actors cs) characterName\<rparr>;
                                  dialogueText = doc_collectDialogue lines0 (lineIndex + 1) []
                              in if trim dialogueText \<noteq> []
                                 then csA\<lparr>doc_dialogue := doc_dialogue csA @
                                            [\<lparr>character = characterName,
                                              dtext = trim dialogueText\<rparr>]\<rparr>
                                 else csA)
                           else cs);
                        cs2 =
                          (if \<not> doc_isCharacterName trimmed lines0 lineIndex \<and>
                              \<not> doc_isTransition trimmed \<and> \<not> isParenthetical trimmed
                           then cs1\<lparr>doc_actions := doc_actions cs1 @ [trimmed]\<rparr>
                           else cs1);
                        cs3 = cs2\<lparr>doc_props := foldl setAdd (doc_props cs2)
                                                   (extractPropsFromLine trimmed)\<rparr>
                    in st\<lparr>ds_currentScene := Some cs3,
                          ds_sceneLines := ds_sceneLines st @ [line]\<rparr>)))"

definition doc_pageStep :: "DocState \<Rightarrow> TextPage \<Rightarrow> DocState" where
  "doc_pageStep st page =
     (let lines0 = splitOn 10 (tp_rawText page)
      in foldl (doc_lineStep (tp_pageNumber page) lines0) st (enumerate 0 lines0))"

definition analyzeScenes :: "TextPage list \<Rightarrow> DocScene list" where
  "analyzeScenes textPages =
     doc_pushCurrent
       (foldl doc_pageStep
          \<lparr>ds_scenes = [], ds_currentScene = None, ds_sceneLines = [], ds_sceneNumber = 1\<rparr>
          textPages)"

section \<open>The PDF parser (class PDFScriptParser)\<close>

text \<open>
  \<open>cleanCharacterName\<close> and \<open>isParenthetical\<close> have the same text as in the
  hybrid parser. The regular expressions of the other predicates differ: three prefixes
  instead of four, no apostrophe in the last-resort class, no \<open>trim\<close> in
  \<open>isPageNumber\<close>, a case-sensitive \<open>of\<close> in the page footer.
\<close>

definition pdf_prefixes :: item where
  "pdf_prefixes = Lit True [js ''INT.'', js ''INT'', js ''EXT.'', js ''EXT'',
                            js ''INT/EXT.'', js ''INT/EXT'']"

text \<open>The class \<open>[A-Z\s]\<close> under the \<open>i\<close> flag.\<close>

definition pdf_headingChar :: "jschar \<Rightarrow> bool" where
  "pdf_headingChar c = (isUpperAZ c \<or> isLowerAZ c \<or> isWhiteSpace c)"

definition pdf_isSceneHeading :: "jsstring \<Rightarrow> bool" where
  "pdf_isSceneHeading line =
     (let pattern1 = [pdf_prefixes, plus isWhiteSpace, plus dot, star isWhiteSpace, one isDash,
                      star isWhiteSpace, times];
          pattern2 = [pdf_prefixes, plus isWhiteSpace, plus dot, one (\<lambda>c. c = 46),
                      star isWhiteSpace, times];
          pattern3 = [pdf_prefixes, plus isWhiteSpace, Rep pdf_headingChar 3 None True]
      in rtest pattern1 False line \<or> rtest pattern2 False line \<or> rtest pattern3 False line)"

definition pdf_parseSceneHeading :: "jsstring \<Rightarrow> SceneData" where
  "pdf_parseSceneHeading heading0 =
     (let pattern1 = [pdf_prefixes, plus isWhiteSpace, Rep dot 1 None False, star isWhiteSpace,
                      one isDash, star isWhiteSpace, times]
      in case rmatch pattern1 False heading0 of
           Some match1 \<Rightarrow>
             \<lparr>sd_intExt = toUpperCase (removeFirst 46 (match1 ! 0)),
              sd_location = trim (match1 ! 2),
              sd_time = toUpperCase (match1 ! 6)\<rparr>
         | None \<Rightarrow>
             (let pattern2 = [pdf_prefixes, plus isWhiteSpace, Rep dot 1 None False,
                              one (\<lambda>c. c = 46), star isWhiteSpace, times]
              in case rmatch pattern2 False heading0 of
                   Some match2 \<Rightarrow>
                     \<lparr>sd_intExt = toUpperCase (removeFirst 46 (match2 ! 0)),
                      sd_location = trim (match2 ! 2),
                      sd_time = toUpperCase (match2 ! 5)\<rparr>
                 | None \<Rightarrow>
                     (let pattern3 = [pdf_prefixes, plus isWhiteSpace, plus dot]
                      in case rmatch pattern3 False heading0 of
                           Some match3 \<Rightarrow>
                             \<lparr>sd_intExt = toUpperCase (removeFirst 46 (match3 ! 0)),
                              sd_location = trim (match3 ! 2),
                              sd_time = js ''DAY''\<rparr>
                         | None \<Rightarrow>
                             \<lparr>sd_intExt = js ''INT'', sd_location = js ''Unknown'',
                              sd_time = js ''DAY''\<rparr>)))"

definition pdf_isPageNumber :: "jsstring \<Rightarrow> bool" where
  "pdf_isPageNumber line = rtest [Rep isDigit 1 (Some 3) True, opt (\<lambda>c. c = 46)] True line"

definition pdf_isPageFooter :: "jsstring \<Rightarrow> bool" where
  "pdf_isPageFooter line =
     (rtest [star (\<lambda>c. c = 45), star isWhiteSpace, plus isDigit, plus isWhiteSpace,
             Lit False [js ''of''], plus isWhiteSpace, plus isDigit, star isWhiteSpace,
             star (\<lambda>c. c = 45)] True line \<or>
      rtest [Lit True [js ''Page''], plus isWhiteSpace, plus isDigit] True line)"

definition pdf_transitions :: "jsstring list" where
  "pdf_transitions = [js ''FADE OUT'', js ''FADE IN'', js ''CUT TO'', js ''DISSOLVE TO'',
                      js ''SMASH CUT TO'', js ''MATCH CUT TO'', js ''JUMP CUT TO'',
                      js ''WIPE TO'', js ''IRIS OUT'', js ''IRIS IN'', js ''THE END'']"

definition pdf_isTransition :: "jsstring \<Rightarrow> bool" where
  "pdf_isTransition line = list_ex (\<lambda>t. includesStr (toUpperCase line) t) pdf_transitions"

text \<open>The pattern \<open>/^[A-Z][A-Z\s'.-]*[A-Z]$|^[A-Z]$/\<close>.\<close>

definition pdf_characterPattern :: "jsstring \<Rightarrow> bool" where
  "pdf_characterPattern s =
     (rtest [one isUpperAZ, star nameChar, one isUpperAZ] True s \<or> rtest [one isUpperAZ] True s)"

definition pdf_looksLikeCharacterName :: "jsstring \<Rightarrow> bool" where
  "pdf_looksLikeCharacterName line =
     (let trimmed = trim line
      in if length trimmed < 2 \<or> 50 < length trimmed then False
         else let withoutParens = trim (stripParens trimmed)
              in if withoutParens = [] then False
                 else if \<not> list_ex isUpperAZ withoutParens then False
                 else if \<not> pdf_characterPattern withoutParens then False
                 else if 46 \<in> set withoutParens \<and> \<not> initialsPattern withoutParens then False
                 else if pdf_isSceneHeading trimmed \<or> pdf_isTransition trimmed then False
                 else True)"

definition scriptEnders :: "jsstring list" where
  "scriptEnders = [js ''THE END'', js ''CONTINUED'', js ''TO BE CONTINUED'', js ''FADE OUT'',
                   js ''FADE IN'']"

definition pdf_isCharacterName :: "jsstring \<Rightarrow> jsstring list \<Rightarrow> nat \<Rightarrow> bool" where
  "pdf_isCharacterName line allLines currentIndex =
     (if pdf_isPageFooter line \<or> pdf_isPageNumber line then False
      else if pdf_isSceneHeading line \<or> pdf_isTransition line then False
      else let trimmed = trim line
           in if length trimmed < 2 \<or> 50 < length trimmed then False
              else let withoutParens = trim (stripParens trimmed)
                   in if withoutParens = [] \<or> length withoutParens < 2 then False
                      else if \<not> list_ex isUpperAZ withoutParens then False
                      else if list_ex (\<lambda>ender. includesStr (toUpperCase trimmed) ender)
                                scriptEnders then False
                      else if \<not> pdf_characterPattern withoutParens then False
                      else if 46 \<in> set withoutParens \<and> \<not> initialsPattern withoutParens
                        then False
                      else let nextLineIndex = currentIndex + 1
                           in if length allLines \<le> nextLineIndex then False
                              else let nextLine = trim (allLines ! nextLineIndex)
                                   in if nextLine = [] then False
                                      else if pdf_looksLikeCharacterName nextLine then False
                                      else if pdf_isSceneHeading nextLine then False
                                      else True)"

text \<open>
  The class has two methods named \<open>isLikelyActionLine\<close>; the second one replaces the
  first, and it is the one modelled.
\<close>

definition pdf_isLikelyActionLine :: "jsstring \<Rightarrow> bool" where
  "pdf_isLikelyActionLine line =
     (let isAllCaps = rtest [plus (\<lambda>c. isUpperAZ c \<or> isWhiteSpace c)] True line;
          startsWithCap = rtest [one isUpperAZ] False line;
          hasLowercase = list_ex isLowerAZ line
      in if isAllCaps \<and> 25 < length line then True
         else if startsWithCap \<and> hasLowercase \<and> 15 < length line then True
         else False)"

record PdfDialogue =
  pd_character :: jsstring
  pd_text :: jsstring
  pd_lines :: "jsstring list"

record PdfStats =
  lineCount :: nat
  dialogues :: "jsstring list"

text \<open>
  \<open>characterStats\<close> is an object used as a dictionary; the model is an association
  list in insertion order. The keys are cleaned names of lines that pass the cue test:
  they start with a capital letter, so none is an integer index or the name of a property
  of \<open>Object.prototype\<close>.
\<close>

record PdfScene =
  page :: nat
  originalHeading :: jsstring
  pdf_intExt :: jsstring
  pdf_location :: jsstring
  pdf_time :: jsstring
  pdf_summary :: jsstring
  sceneText :: jsstring
  pdf_actors :: "jsstring list"
  action :: "jsstring list"
  pdf_dialogue :: "PdfDialogue list"
  pdf_charactersInScene :: "jsstring collection"
  characterStats :: "(jsstring \<times> PdfStats) list"
  pdf_props :: "jsstring list"

definition pdf_generateSceneSummary :: "PdfScene \<Rightarrow> jsstring" where
  "pdf_generateSceneSummary scene =
     (let actionText = join [32] (action scene);
          dialogueText =
            join [32] (map (\<lambda>d. pd_character d @ js '': '' @ pd_text d) (pdf_dialogue scene));
          s = trim (actionText @ [32] @ dialogueText)
      in if s = [] then js ''No summary available'' else s)"

definition pdf_extractProps :: "jsstring list \<Rightarrow> jsstring list" where
  "pdf_extractProps lines0 =
     foldl (\<lambda>props0 line.
              foldl (\<lambda>ps prop. if includesStr (toLowerCase line) prop
                                then setAdd ps (capitalize prop) else ps)
                    props0 propKeywords)
           [] lines0"

definition pdf_sealScene :: "PdfScene \<Rightarrow> jsstring list \<Rightarrow> PdfScene" where
  "pdf_sealScene currentScene0 currentSceneLines =
     currentScene0
       \<lparr>sceneText := join [10] currentSceneLines,
        pdf_summary := pdf_generateSceneSummary
                         (currentScene0\<lparr>sceneText := join [10] currentSceneLines\<rparr>),
        pdf_props := pdf_extractProps currentSceneLines\<rparr>"

function pdf_collectDialogue ::
  "jsstring list \<Rightarrow> nat \<Rightarrow> jsstring list \<Rightarrow> jsstring list \<Rightarrow> nat \<times> jsstring list \<times> jsstring list"
where
  "pdf_collectDialogue lines0 j dialogueLines currentSceneLines =
     (if j < length lines0 then
        (let nextLine = trim (lines0 ! j)
         in if nextLine = []
              then pdf_collectDialogue lines0 (j + 1) dialogueLines currentSceneLines
            else if pdf_isCharacterName nextLine lines0 j \<or> pdf_isSceneHeading nextLine \<or>
                    pdf_isPageNumber nextLine \<or> pdf_isPageFooter nextLine \<or>
                    pdf_isTransition nextLine
              then (j, dialogueLines, currentSceneLines)
            else if isParenthetical nextLine
              then pdf_collectDialogue lines0 (j + 1) dialogueLines
                     (currentSceneLines @ [nextLine])
            else if pdf_isLikelyActionLine nextLine
              then (j, dialogueLines, currentSceneLines)
            else pdf_collectDialogue lines0 (j + 1) (dialogueLines @ [nextLine])
                   (currentSceneLines @ [nextLine]))
      else (j, dialogueLines, currentSceneLines))"
  by pat_completeness auto
termination
  by (relation "measure (\<lambda>(lines0, j, dialogueLines, currentSceneLines). length lines0 - j)")
    auto

declare pdf_collectDialogue.simps [simp del]

lemma pdf_collectDialogue_ge:
  "j \<le> fst (pdf_collectDialogue lines0 j dialogueLines currentSceneLines)"
proof (induction lines0 j dialogueLines currentSceneLines rule: pdf_collectDialogue.induct)
  case (1 lines0 j dialogueLines currentSceneLines)
  show ?case
    using "1.IH"
    by (subst pdf_collectDialogue.simps) (auto simp: Let_def intro: Suc_leD)
qed

record PdfState =
  ps_scenes :: "PdfScene list"
  ps_currentScene :: "PdfScene option"
  ps_currentSceneLines :: "jsstring list"

definition pdf_pushCurrent :: "PdfState \<Rightarrow> PdfScene list" where
  "pdf_pushCurrent st =
     (case ps_currentScene st of
        Some cs \<Rightarrow> ps_scenes st @ [pdf_sealScene cs (ps_currentSceneLines st)]
      | None \<Rightarrow> ps_scenes st)"

definition addStats :: "(jsstring \<times> PdfStats) list \<Rightarrow> jsstring \<Rightarrow> jsstring list \<Rightarrow> (jsstring \<times> PdfStats) list" where
  "addStats stats characterName dialogueLines =
     mapUpdate characterName
       (\<lambda>s. s\<lparr>lineCount := lineCount s + length dialogueLines,
               dialogues := dialogues s @ [join [32] dialogueLines]\<rparr>)
       (if mapHas stats characterName then stats
        else stats @ [(characterName, \<lparr>lineCount = 0, dialogues = []\<rparr>)])"

text \<open>
  One iteration of the \<open>for\<close> loop of \<open>parseScenes\<close>: the next index and the new
  state. \<open>Math.ceil\<close> of a quotient of naturals is computed on naturals.
\<close>

definition pdf_loopBody :: "jsstring list \<Rightarrow> nat \<Rightarrow> nat \<Rightarrow> PdfState \<Rightarrow> nat \<times> PdfState" where
  "pdf_loopBody lines0 totalPages0 i st =
     (let line = trim (lines0 ! i);
          linesPerPage = (length lines0 + totalPages0 - 1) div totalPages0;
          currentPage = min ((i + 1 + linesPerPage - 1) div linesPerPage) totalPages0
      in if line = [] then (i + 1, st)
         else if pdf_isPageNumber line \<or> pdf_isPageFooter line then (i + 1, st)
         else if pdf_isSceneHeading line then
           (let sceneData = pdf_parseSceneHeading line
            in (i + 1,
                \<lparr>ps_scenes = pdf_pushCurrent st,
                 ps_currentScene =
                   Some \<lparr>page = currentPage,
                         originalHeading = line,
                         pdf_intExt = sd_intExt sceneData,
                         pdf_location = sd_location sceneData,
                         pdf_time = sd_time sceneData,
                         pdf_summary = [],
                         sceneText = [],
                         pdf_actors = [],
                         action = [],
                         pdf_dialogue = [],
                         pdf_charactersInScene = JSSet [],
                         characterStats = [],
                         pdf_props = []\<rparr>,
                 ps_currentSceneLines = [line]\<rparr>))
         else (case ps_currentScene st of
                 None \<Rightarrow> (i + 1, st)
               | Some cs \<Rightarrow>
                   if pdf_isCharacterName line lines0 i then
                     (let characterName = cleanCharacterName line;
                          cs1 = cs\<lparr>pdf_charactersInScene :=
                                     add (pdf_charactersInScene cs) characterName,
                                   pdf_actors := setAdd (pdf_actors cs) characterName\<rparr>;
                          r = pdf_collectDialogue lines0 (i + 1) []
                                (ps_currentSceneLines st @ [line]);
                          dialogueLines = fst (snd r);
                          cs2 = (if dialogueLines \<noteq> []
                                 then cs1\<lparr>pdf_dialogue := pdf_dialogue cs1 @
                                            [\<lparr>pd_character = characterName,
                                              pd_text = join [32] dialogueLines,
                                              pd_lines = dialogueLines\<rparr>],
                                          characterStats :=
                                            addStats (characterStats cs1) characterName
                                              dialogueLines\<rparr>
                                 else cs1)
                      in (fst r,
                          st\<lparr>ps_currentScene := Some cs2,
                              ps_currentSceneLines := snd (snd r)\<rparr>))
                   else
                     (i + 1,
                      st\<lparr>ps_currentScene :=
                            Some (if \<not> pdf_isTransition line \<and> \<not> pdf_isPageFooter line \<and>
                                     \<not> pdf_isPageNumber line \<and>
                                     \<not> pdf_looksLikeCharacterName line
                                  then cs\<lparr>action := action cs @ [line]\<rparr> else cs),
                          ps_currentSceneLines := ps_currentSceneLines st @ [line]\<rparr>)))"

lemma pdf_loopBody_progress: "i < fst (pdf_loopBody lines0 totalPages0 i st)"
  using pdf_collectDialogue_ge [of "i + 1" lines0 "[]"]
  by (auto simp: pdf_loopBody_def Let_def less_eq_Suc_le split: option.split)

function pdf_parseLoop :: "jsstring list \<Rightarrow> nat \<Rightarrow> nat \<Rightarrow> PdfState \<Rightarrow> PdfState" where
  "pdf_parseLoop lines0 totalPages0 i st =
     (if length lines0 \<le> i then st
      else pdf_parseLoop lines0 totalPages0 (fst (pdf_loopBody lines0 totalPages0 i st))
             (snd (pdf_loopBody lines0 totalPages0 i st)))"
  by pat_completeness auto
termination
proof (relation "measure (\<lambda>(lines0, totalPages0, i, st). length lines0 - i)")
  fix lines0 :: "jsstring list" and totalPages0 i :: nat and st :: PdfState
  assume "\<not> length lines0 \<le> i"
  then show "((lines0, totalPages0, fst (pdf_loopBody lines0 totalPages0 i st),
               snd (pdf_loopBody lines0 totalPages0 i st)),
              lines0, totalPages0, i, st)
             \<in> measure (\<lambda>(lines0, totalPages0, i, st). length lines0 - i)"
    using pdf_loopBody_progress [of i lines0 totalPages0 st]
    by (cases "pdf_loopBody lines0 totalPages0 i st") auto
qed simp

declare pdf_parseLoop.simps [simp del]

text \<open>
  As in the hybrid parser, \<open>parseScenes\<close> ends with a pass that assigns
  \<open>Array.from(scene.charactersInScene)\<close> to every scene.
\<close>

definition pdf_parseScenes :: "jsstring list \<Rightarrow> nat \<Rightarrow> PdfScene list" where
  "pdf_parseScenes lines0 totalPages0 =
     map (\<lambda>scene. scene\<lparr>pdf_charactersInScene := arrayFrom (pdf_charactersInScene scene)\<rparr>)
       (pdf_pushCurrent
          (pdf_parseLoop lines0 totalPages0 0
             \<lparr>ps_scenes = [], ps_currentScene = None, ps_currentSceneLines = []\<rparr>))"

text \<open>
  \<open>parseCharacters\<close>. \<open>characterMap\<close> is an object used as a dictionary, modelled as
  an association list in insertion order (the order of \<open>Object.values\<close> for keys that
  are not integer indices).
\<close>

record PdfCharAcc =
  pc_name :: jsstring
  pc_lines :: nat
  pc_scenes :: nat
  pc_dialogue :: "jsstring list"
  pc_sceneIds :: "jsstring list"

definition pdf_ensure :: "(jsstring \<times> PdfCharAcc) list \<Rightarrow> jsstring \<Rightarrow> (jsstring \<times> PdfCharAcc) list" where
  "pdf_ensure m n =
     (if mapHas m n then m
      else m @ [(n, \<lparr>pc_name = n, pc_lines = 0, pc_scenes = 0, pc_dialogue = [],
                     pc_sceneIds = []\<rparr>)])"

definition pdf_actorStep :: "nat \<Rightarrow> (jsstring \<times> PdfCharAcc) list \<Rightarrow> jsstring \<Rightarrow> (jsstring \<times> PdfCharAcc) list" where
  "pdf_actorStep sceneIndex m actorName =
     mapUpdate actorName
       (\<lambda>ch. if natToString sceneIndex \<in> set (pc_sceneIds ch) then ch
              else ch\<lparr>pc_sceneIds := pc_sceneIds ch @ [natToString sceneIndex],
                      pc_scenes := pc_scenes ch + 1\<rparr>)
       (pdf_ensure m actorName)"

definition pdf_statsStep :: "(jsstring \<times> PdfCharAcc) list \<Rightarrow> jsstring \<times> PdfStats \<Rightarrow> (jsstring \<times> PdfCharAcc) list" where
  "pdf_statsStep m x =
     mapUpdate (fst x)
       (\<lambda>ch. ch\<lparr>pc_lines := pc_lines ch + lineCount (snd x),
                 pc_dialogue := pc_dialogue ch @ dialogues (snd x)\<rparr>)
       (pdf_ensure m (fst x))"

definition pdf_sceneStep :: "(jsstring \<times> PdfCharAcc) list \<Rightarrow> nat \<times> PdfScene \<Rightarrow> (jsstring \<times> PdfCharAcc) list" where
  "pdf_sceneStep m x =
     foldl pdf_statsStep (foldl (pdf_actorStep (fst x)) m (pdf_actors (snd x)))
       (characterStats (snd x))"

definition pdf_characterMap :: "PdfScene list \<Rightarrow> (jsstring \<times> PdfCharAcc) list" where
  "pdf_characterMap scenes0 = foldl pdf_sceneStep [] (enumerate 0 scenes0)"

definition parseCharacters :: "PdfScene list \<Rightarrow> Character list" where
  "parseCharacters scenes0 =
     map (\<lambda>ch. \<lparr>name = pc_name ch, lines = pc_lines ch, sceneCount = pc_scenes ch,
                 sceneIds = pc_sceneIds ch, c_dialogue = pc_dialogue ch\<rparr>)
         (map snd (pdf_characterMap scenes0))"

section \<open>The advanced parser (class AdvancedScriptParser, script.controller.js)\<close>

text \<open>
  The page segmenter of the parser that the upload controller runs. It has three tiers:
  the form-feed split, the split at the lines that are page numbers, and the
  distribution of the lines over the declared number of pages. \<open>cleanScriptText\<close> has
  the same text as in the hybrid parser.
\<close>

definition adv_cleanScriptText :: "jsstring \<Rightarrow> jsstring" where
  "adv_cleanScriptText text0 =
     trim
      (replaceAll [112, 105, 195, 185] [112, 105, 249]
      (replaceAll [195, 185] [249]
      (replaceAll [195, 178] [242]
      (replaceAll [195, 172] [236]
      (replaceAll [195, 169] [233]
      (replaceAll [195, 168] [232]
      (replaceAll [195, 32] [224]
      (replaceAll [226, 8364, 34] [8211]
      (replaceAll [226, 8364, 34] [8212]
      (replaceAll [226, 8364] [34]
      (replaceAll [226, 8364, 339] [34]
      (replaceAll [226, 8364, 8482] [39]
      (replaceWsNl
      (replaceAll [9] (js ''    '')
      (replaceAll [13] [10]
      (replaceAll [13, 10] [10] text0))))))))))))))))"

record AdvPage =
  ap_pageNumber :: nat
  ap_rawText :: jsstring
  ap_lineCount :: nat
  ap_originalLength :: nat

definition adv_formFeedPages :: "jsstring \<Rightarrow> jsstring list" where
  "adv_formFeedPages text0 = filter (\<lambda>p. trim p \<noteq> []) (splitOn 12 text0)"

text \<open>
  The test of the first tier:
  \<open>formFeedPages.length >= totalPages && formFeedPages.length <= totalPages * 1.5\<close>.
\<close>

definition adv_usesFormFeed :: "jsstring \<Rightarrow> nat \<Rightarrow> bool" where
  "adv_usesFormFeed text0 totalPages0 =
     (totalPages0 \<le> length (adv_formFeedPages text0) \<and>
      2 * length (adv_formFeedPages text0) \<le> 3 * totalPages0)"

definition adv_formFeedSplit :: "jsstring \<Rightarrow> AdvPage list" where
  "adv_formFeedSplit text0 =
     map (\<lambda>(index, pageText).
            let cleaned = adv_cleanScriptText pageText
            in \<lparr>ap_pageNumber = index + 1, ap_rawText = cleaned,
                ap_lineCount = length (splitOn 10 cleaned),
                ap_originalLength = length pageText\<rparr>)
         (enumerate 0 (adv_formFeedPages text0))"

text \<open>\<open>parseInt\<close> of a string that starts with decimal digits.\<close>

definition parseInt :: "jsstring \<Rightarrow> nat" where
  "parseInt s = foldl (\<lambda>n c. 10 * n + (c - 48)) 0 (takeWhile isDigit s)"

record PageBreak =
  lineIndex :: nat
  pb_pageNumber :: nat

definition pageBreaks :: "jsstring list \<Rightarrow> nat \<Rightarrow> PageBreak list" where
  "pageBreaks lines0 totalPages0 =
     concat (map (\<lambda>(i, l).
                    let line = trim l
                    in if rtest [Rep isDigit 1 (Some 3) True, star isWhiteSpace] True line
                       then (let pageNum = parseInt line
                             in if 1 \<le> pageNum \<and> pageNum \<le> totalPages0
                                then [\<lparr>lineIndex = i, pb_pageNumber = pageNum\<rparr>] else [])
                       else [])
                 (enumerate 0 lines0))"

text \<open>
  The second tier gives up, with no pages, when it finds fewer page-number lines than
  half the declared page count (\<open>pageBreaks.length < totalPages * 0.5\<close>).
\<close>

definition detectPagesByPageNumbers :: "jsstring \<Rightarrow> nat \<Rightarrow> AdvPage list" where
  "detectPagesByPageNumbers text0 totalPages0 =
     (let lines0 = splitOn 10 text0;
          breaks = pageBreaks lines0 totalPages0
      in if 2 * length breaks < totalPages0 then []
         else map (\<lambda>i. let startLine = lineIndex (breaks ! i) + 1;
                          endLine = (if i < length breaks - 1 then lineIndex (breaks ! (i + 1))
                                     else length lines0);
                          pageLines = slice startLine endLine lines0;
                          pageText = join [10] pageLines;
                          cleaned = adv_cleanScriptText pageText
                      in \<lparr>ap_pageNumber = pb_pageNumber (breaks ! i), ap_rawText = cleaned,
                          ap_lineCount = length pageLines,
                          ap_originalLength = length pageText\<rparr>)
                  [0..<length breaks])"

text \<open>
  The third tier. The two \<open>while\<close> loops drop the blank lines at the start and at the
  end; the \<open>for\<close> loop carries \<open>currentLine\<close> from one page to the next. With
  \<open>totalPages = 0\<close> the loop body never runs and the quotient is not used.
\<close>

definition distributeStep ::
  "jsstring list \<Rightarrow> nat \<Rightarrow> nat \<Rightarrow> nat \<times> AdvPage list \<Rightarrow> nat \<Rightarrow> nat \<times> AdvPage list" where
  "distributeStep allLines totalPages0 baseLinesPerPage acc i =
     (let currentLine = fst acc;
          isLastPage = (i = totalPages0 - 1);
          linesForThisPage = (if isLastPage then length allLines - currentLine
                              else min baseLinesPerPage (length allLines - currentLine));
          endLine = currentLine + linesForThisPage;
          pageLines = slice currentLine endLine allLines;
          pageText = join [10] pageLines;
          cleaned = adv_cleanScriptText pageText
      in (endLine,
          snd acc @ [\<lparr>ap_pageNumber = i + 1, ap_rawText = cleaned,
                      ap_lineCount = length pageLines,
                      ap_originalLength = length pageText\<rparr>]))"

definition distributeLinesByContent :: "jsstring \<Rightarrow> nat \<Rightarrow> AdvPage list" where
  "distributeLinesByContent text0 totalPages0 =
     (let allLines = rev (dropWhile (\<lambda>l. trim l = [])
                       (rev (dropWhile (\<lambda>l. trim l = []) (splitOn 10 text0))));
          baseLinesPerPage = (length allLines + totalPages0 - 1) div totalPages0
      in snd (foldl (distributeStep allLines totalPages0 baseLinesPerPage) (0, [])
                [0..<totalPages0]))"

definition adv_extractTextPages :: "jsstring \<Rightarrow> nat \<Rightarrow> AdvPage list" where
  "adv_extractTextPages text0 totalPages0 =
     (if adv_usesFormFeed text0 totalPages0 then adv_formFeedSplit text0
      else (let pageNumberPages = detectPagesByPageNumbers text0 totalPages0
            in if pageNumberPages \<noteq> [] then pageNumberPages
               else distributeLinesByContent text0 totalPages0))"


section \<open>Evaluation\<close>

lemmas ev =
  trim_def isWhiteSpace_def isLineTerminator_def dot_def isDigit_def isUpperAZ_def
  isLowerAZ_def isWordChar_def slice_def startsWith_def endsWith_def upperChar_def
  toUpperCase_def lowerChar_def toLowerCase_def replaceAll.simps stripParens.simps
  collapseSpaces.simps replaceWsNl.simps wsNlMatch_def canon_def litMatch_def counts_def
  rtest_def prefixes_def times_def isDash_def headingChar_def isSceneHeading_def
  parseSceneHeading_def isParenthetical_def isPageNumber_def isPageFooter_def
  transitions_def isTransition_def nameChar_def characterPattern_def initialsPattern_def
  looksLikeCharacterName_def isCharacterName_def isLikelyActionLine_def
  cleanCharacterName_def Let_def

lemmas ev_parse =
  ev flattenPages_def collectDialogue.simps loopBody_def parseLoop.simps parseScenes_def
  pushedScenes_def
  pushCurrent_def openScene_def sealScene_def setAdd_def generateSceneSummary_def
  extractProps_def propKeywords_def capitalize_def

section \<open>The review flag of the hybrid parser\<close>

text \<open>
  C10. In the hybrid page parser the metadata has \<open>needsReview = true\<close> for every
  text and every page count, whether the pages came from the form-feed split or from the
  line estimate: the flag says nothing about the tier that was used.
\<close>

theorem needsReview_always:
  "needsReview (r_metadata (parse text0 totalPages0)) = True"
  by (simp add: parse_def generateMetadata_def Let_def)

section \<open>The form-feed test of the page segmenter\<close>

lemma length_formFeedSplit: "length (formFeedSplit text0) = length (formFeedPages text0)"
  by (simp add: formFeedSplit_def)

lemma rawText_formFeedSplit:
  "map rawText (formFeedSplit text0) = map trim (formFeedPages text0)"
proof -
  have "map (\<lambda>x. trim (snd x)) (enumerate n xs) = map trim xs" for n and xs :: "jsstring list"
    by (induction xs arbitrary: n) simp_all
  then show ?thesis
    by (simp add: formFeedSplit_def case_prod_unfold comp_def)
qed

lemma pageNumber_formFeedSplit:
  "map pageNumber (formFeedSplit text0) = [1..<Suc (length (formFeedPages text0))]"
proof -
  have "map pageNumber (formFeedSplit text0) =
        map (\<lambda>x. Suc (fst x)) (enumerate 0 (formFeedPages text0))"
    by (simp add: formFeedSplit_def case_prod_unfold comp_def)
  also have "\<dots> = map Suc (map fst (enumerate 0 (formFeedPages text0)))"
    by (simp only: map_map comp_def)
  also have "\<dots> = map Suc [0..<length (formFeedPages text0)]"
    by simp
  also have "\<dots> = [1..<Suc (length (formFeedPages text0))]"
    by (simp add: map_Suc_upt)
  finally show ?thesis .
qed

lemma length_estimatedPages: "length (estimatedPages text0 totalPages0) = totalPages0"
  by (simp add: estimatedPages_def Let_def)

lemma rawText_doc_formFeedSplit:
  "map tp_rawText (doc_formFeedSplit text0) =
   map doc_cleanScriptText (filter (\<lambda>p. trim p \<noteq> []) (splitOn 12 text0))"
proof -
  have "map (\<lambda>x. doc_cleanScriptText (snd x)) (enumerate n xs) = map doc_cleanScriptText xs"
    for n and xs :: "jsstring list"
    by (induction xs arbitrary: n) simp_all
  then show ?thesis
    by (simp add: doc_formFeedSplit_def case_prod_unfold comp_def)
qed

lemma pageNumber_doc_formFeedSplit:
  "map tp_pageNumber (doc_formFeedSplit text0) =
   [1..<Suc (length (filter (\<lambda>p. trim p \<noteq> []) (splitOn 12 text0)))]"
proof -
  let ?ps = "filter (\<lambda>p. trim p \<noteq> []) (splitOn 12 text0)"
  have "map tp_pageNumber (doc_formFeedSplit text0) = map (\<lambda>x. Suc (fst x)) (enumerate 0 ?ps)"
    by (simp add: doc_formFeedSplit_def case_prod_unfold comp_def)
  also have "\<dots> = map Suc (map fst (enumerate 0 ?ps))"
    by (simp only: map_map comp_def)
  also have "\<dots> = map Suc [0..<length ?ps]"
    by simp
  also have "\<dots> = [1..<Suc (length ?ps)]"
    by (simp add: map_Suc_upt)
  finally show ?thesis .
qed

lemma length_doc_estimatedPages: "length (doc_estimatedPages text0 totalPages0) = totalPages0"
  by (simp add: doc_estimatedPages_def Let_def)

text \<open>
  What the two parsers with two tiers do. The hybrid parser uses the form-feed split if
  and only if the number \<open>k\<close> of non-blank chunks between form feeds satisfies
  \<open>1 < k\<close> and \<open>k \<le> 1.5 * N\<close>. The document parser makes the same test on the
  number of all chunks, blank ones included, and drops the blank ones afterwards. When
  the test holds the pages are the non-blank chunks (trimmed in the hybrid parser,
  cleaned in the document parser), numbered from 1; when it fails the result is the line
  estimate, with exactly \<open>N\<close> pages cut from the lines of the text.
\<close>

lemma extractPages_tiers:
  "(1 < length (formFeedPages text0) \<and> 2 * length (formFeedPages text0) \<le> 3 * N \<longrightarrow>
      usesFormFeed text0 N \<and>
      map rawText (extractPages text0 N) = map trim (formFeedPages text0) \<and>
      map pageNumber (extractPages text0 N) = [1..<Suc (length (formFeedPages text0))]) \<and>
   (\<not> (1 < length (formFeedPages text0) \<and> 2 * length (formFeedPages text0) \<le> 3 * N) \<longrightarrow>
      \<not> usesFormFeed text0 N \<and>
      extractPages text0 N = estimatedPages text0 N \<and>
      length (extractPages text0 N) = N) \<and>
   (1 < length (splitOn 12 text0) \<and> 2 * length (splitOn 12 text0) \<le> 3 * N \<longrightarrow>
      doc_usesFormFeed text0 N \<and>
      map tp_rawText (extractTextPages text0 N) =
        map doc_cleanScriptText (filter (\<lambda>p. trim p \<noteq> []) (splitOn 12 text0)) \<and>
      map tp_pageNumber (extractTextPages text0 N) =
        [1..<Suc (length (filter (\<lambda>p. trim p \<noteq> []) (splitOn 12 text0)))]) \<and>
   (\<not> (1 < length (splitOn 12 text0) \<and> 2 * length (splitOn 12 text0) \<le> 3 * N) \<longrightarrow>
      \<not> doc_usesFormFeed text0 N \<and>
      extractTextPages text0 N = doc_estimatedPages text0 N \<and>
      length (extractTextPages text0 N) = N)"
  by (simp add: extractPages_def usesFormFeed_def rawText_formFeedSplit
      pageNumber_formFeedSplit length_estimatedPages extractTextPages_def doc_usesFormFeed_def
      rawText_doc_formFeedSplit pageNumber_doc_formFeedSplit length_doc_estimatedPages)

text \<open>
  The advanced parser commits to the form-feed split exactly when the number of
  non-blank chunks lies between the declared page count and one and a half times it;
  otherwise its pages are those of the second tier when that tier finds any, and those
  of the third tier when it finds none.
\<close>

lemma adv_extractTextPages_tiers:
  "adv_extractTextPages text0 N =
     (if N \<le> length (adv_formFeedPages text0) \<and> 2 * length (adv_formFeedPages text0) \<le> 3 * N
      then adv_formFeedSplit text0
      else if detectPagesByPageNumbers text0 N \<noteq> [] then detectPagesByPageNumbers text0 N
      else distributeLinesByContent text0 N)"
  by (simp add: adv_extractTextPages_def adv_usesFormFeed_def Let_def)

lemma rawText_adv_formFeedSplit:
  "map ap_rawText (adv_formFeedSplit text0) = map adv_cleanScriptText (adv_formFeedPages text0)"
proof -
  have "map (\<lambda>x. adv_cleanScriptText (snd x)) (enumerate n xs) = map adv_cleanScriptText xs"
    for n and xs :: "jsstring list"
    by (induction xs arbitrary: n) simp_all
  then show ?thesis
    by (simp add: adv_formFeedSplit_def case_prod_unfold comp_def Let_def)
qed

lemma two_chunks_formFeedPages:
  "formFeedPages (js ''A'' @ [12] @ js ''B'') = [js ''A'', js ''B'']"
  "adv_formFeedPages (js ''A'' @ [12] @ js ''B'') = [js ''A'', js ''B'']"
  "filter (\<lambda>p. trim p \<noteq> []) (splitOn 12 (js ''A'' @ [12] @ js ''B'')) = [js ''A'', js ''B'']"
  by (simp_all add: formFeedPages_def adv_formFeedPages_def trim_def isWhiteSpace_def)

lemma two_chunks_detectPagesByPageNumbers:
  "detectPagesByPageNumbers (js ''A'' @ [12] @ js ''B'') 10 = []"
  by (simp add: detectPagesByPageNumbers_def pageBreaks_def Let_def ev)

lemma two_chunks_clean:
  "adv_cleanScriptText (js ''A'' @ [12] @ js ''B'') = js ''A'' @ [12] @ js ''B''"
  "adv_cleanScriptText [] = []"
  "doc_cleanScriptText (js ''A'') = js ''A''"
  "doc_cleanScriptText (js ''B'') = js ''B''"
  by (simp_all add: adv_cleanScriptText_def doc_cleanScriptText_def ev)

lemma two_chunks_distributeLinesByContent:
  "map ap_rawText (distributeLinesByContent (js ''A'' @ [12] @ js ''B'') 10) =
   [js ''A'' @ [12] @ js ''B'', [], [], [], [], [], [], [], [], []]"
proof -
  have upt10: "[0..<10] = [0, 1, 2, 3, 4, 5, 6, 7, 8, 9 :: nat]"
    by (simp add: upt_rec)
  have lines0: "rev (dropWhile (\<lambda>l. trim l = [])
      (rev (dropWhile (\<lambda>l. trim l = []) (splitOn 10 (js ''A'' @ [12] @ js ''B''))))) =
      [js ''A'' @ [12] @ js ''B'']"
    by (simp add: trim_def isWhiteSpace_def)
  show ?thesis
    unfolding distributeLinesByContent_def Let_def lines0 upt10
    using two_chunks_clean(1,2)
    by (simp add: distributeStep_def Let_def slice_def)
qed

text \<open>
  C1. The text \<open>A\<close>, form feed, \<open>B\<close> with a declared page count of 10 has two
  non-blank chunks, and 2 is not in the interval from 10 to 15. \<open>extractPages\<close> of the
  hybrid parser and \<open>extractTextPages\<close> of the document parser test \<open>1 < k\<close>
  where the claim has \<open>N \<le> k\<close>: both commit to the form-feed split and return its two
  pages. \<open>extractTextPages\<close> of the advanced parser tests \<open>N \<le> k\<close>: on the same
  input it rejects the split, its second tier finds no page number, and the ten pages it
  returns are those of its third tier.
\<close>

theorem extractPages_two_chunks_of_ten:
  "length (formFeedPages (js ''A'' @ [12] @ js ''B'')) = 2 \<and>
   usesFormFeed (js ''A'' @ [12] @ js ''B'') 10 \<and>
   extractPages (js ''A'' @ [12] @ js ''B'') 10 = formFeedSplit (js ''A'' @ [12] @ js ''B'') \<and>
   map rawText (extractPages (js ''A'' @ [12] @ js ''B'') 10) = [js ''A'', js ''B''] \<and>
   doc_usesFormFeed (js ''A'' @ [12] @ js ''B'') 10 \<and>
   extractTextPages (js ''A'' @ [12] @ js ''B'') 10 =
     doc_formFeedSplit (js ''A'' @ [12] @ js ''B'') \<and>
   map tp_rawText (extractTextPages (js ''A'' @ [12] @ js ''B'') 10) = [js ''A'', js ''B''] \<and>
   \<not> adv_usesFormFeed (js ''A'' @ [12] @ js ''B'') 10 \<and>
   detectPagesByPageNumbers (js ''A'' @ [12] @ js ''B'') 10 = [] \<and>
   adv_extractTextPages (js ''A'' @ [12] @ js ''B'') 10 =
     distributeLinesByContent (js ''A'' @ [12] @ js ''B'') 10 \<and>
   map ap_rawText (adv_extractTextPages (js ''A'' @ [12] @ js ''B'') 10) =
     [js ''A'' @ [12] @ js ''B'', [], [], [], [], [], [], [], [], []]"
proof -
  note chunks = two_chunks_formFeedPages
  have hybrid: "usesFormFeed (js ''A'' @ [12] @ js ''B'') 10"
    using chunks(1) by (simp add: usesFormFeed_def)
  have doc: "doc_usesFormFeed (js ''A'' @ [12] @ js ''B'') 10"
    by (simp add: doc_usesFormFeed_def)
  have adv: "\<not> adv_usesFormFeed (js ''A'' @ [12] @ js ''B'') 10"
    using chunks(2) by (simp add: adv_usesFormFeed_def)
  have adv3: "adv_extractTextPages (js ''A'' @ [12] @ js ''B'') 10 =
      distributeLinesByContent (js ''A'' @ [12] @ js ''B'') 10"
    using adv two_chunks_detectPagesByPageNumbers by (simp add: adv_extractTextPages_def)
  have h2: "map rawText (formFeedSplit (js ''A'' @ [12] @ js ''B'')) = [js ''A'', js ''B'']"
    unfolding rawText_formFeedSplit chunks(1)
    by (simp add: trim_def isWhiteSpace_def)
  have d2: "map tp_rawText (doc_formFeedSplit (js ''A'' @ [12] @ js ''B'')) =
      [js ''A'', js ''B'']"
    unfolding rawText_doc_formFeedSplit chunks(3)
    using two_chunks_clean(3,4) by simp
  have h: "extractPages (js ''A'' @ [12] @ js ''B'') 10 =
      formFeedSplit (js ''A'' @ [12] @ js ''B'')"
    using hybrid by (simp add: extractPages_def)
  have d: "extractTextPages (js ''A'' @ [12] @ js ''B'') 10 =
      doc_formFeedSplit (js ''A'' @ [12] @ js ''B'')"
    using doc by (simp add: extractTextPages_def)
  have len: "length (formFeedPages (js ''A'' @ [12] @ js ''B'')) = 2"
    unfolding chunks(1) by simp
  show ?thesis
    unfolding h d adv3 h2 d2 two_chunks_distributeLinesByContent
    using len hybrid doc adv two_chunks_detectPagesByPageNumbers
    by (intro conjI) simp_all
qed

section \<open>Global replacements and the patterns they remove\<close>

lemma sublist_single: "sublist [c] s \<longleftrightarrow> c \<in> set s"
  by (induction s) (auto simp: sublist_Cons_right)

lemma replaceAll_Nil: "replaceAll p r [] = []"
  by (subst replaceAll.simps) auto

lemma replaceAll_match:
  "p \<noteq> [] \<and> length p \<le> length s \<and> take (length p) s = p \<Longrightarrow>
   replaceAll p r s = r @ replaceAll p r (drop (length p) s)"
  by (subst replaceAll.simps) simp

lemma replaceAll_nomatch:
  "\<not> (p \<noteq> [] \<and> length p \<le> length (c # cs) \<and> take (length p) (c # cs) = p) \<Longrightarrow>
   replaceAll p r (c # cs) = c # replaceAll p r cs"
  by (subst replaceAll.simps) auto

lemma replaceAll_id: "\<not> sublist p s \<Longrightarrow> replaceAll p r s = s"
proof (induction p r s rule: replaceAll.induct)
  case (1 p r s)
  have nomatch: "\<not> (p \<noteq> [] \<and> length p \<le> length s \<and> take (length p) s = p)"
  proof
    assume "p \<noteq> [] \<and> length p \<le> length s \<and> take (length p) s = p"
    then have "prefix p s" by (metis take_is_prefix)
    with "1.prems" show False by auto
  qed
  show ?case
  proof (cases s)
    case Nil
    then show ?thesis by (simp add: replaceAll_Nil)
  next
    case (Cons c cs)
    with "1.prems" have "\<not> sublist p cs" by (simp add: sublist_Cons_right)
    with "1.IH"(2) [OF nomatch Cons] have "replaceAll p r cs = cs" by simp
    then show ?thesis using nomatch Cons by (simp add: replaceAll_nomatch)
  qed
qed

lemma replaceAll_same_aux: "r = p \<Longrightarrow> replaceAll p r s = s"
proof (induction p r s rule: replaceAll.induct)
  case (1 p r s)
  show ?case
  proof (cases "p \<noteq> [] \<and> length p \<le> length s \<and> take (length p) s = p")
    case True
    with "1.IH"(1) "1.prems" have "replaceAll p r (drop (length p) s) = drop (length p) s"
      by simp
    with True "1.prems" have "replaceAll p r s = take (length p) s @ drop (length p) s"
      by (simp add: replaceAll_match)
    then show ?thesis by simp
  next
    case False
    show ?thesis
    proof (cases s)
      case Nil
      then show ?thesis by (simp add: replaceAll_Nil)
    next
      case (Cons c cs)
      with "1.IH"(2) [OF False Cons] "1.prems" show ?thesis using False
        by (simp add: replaceAll_nomatch)
    qed
  qed
qed

lemma replaceAll_same: "replaceAll p p s = s"
  by (rule replaceAll_same_aux) simp

lemma replaceAll_prefix:
  "set r \<inter> set q = {} \<Longrightarrow> r \<noteq> [] \<Longrightarrow> prefix q (replaceAll p r s) \<Longrightarrow> prefix q s"
proof (induction p r s arbitrary: q rule: replaceAll.induct)
  case (1 p r s)
  show ?case
  proof (cases "p \<noteq> [] \<and> length p \<le> length s \<and> take (length p) s = p")
    case True
    then have "replaceAll p r s = r @ replaceAll p r (drop (length p) s)"
      by (rule replaceAll_match)
    with "1.prems"(3) have pq: "prefix q (r @ replaceAll p r (drop (length p) s))" by simp
    have "q = []"
    proof (rule ccontr)
      assume "q \<noteq> []"
      then obtain a q' where q: "q = a # q'" by (cases q) auto
      from \<open>r \<noteq> []\<close> obtain b r' where r: "r = b # r'" by (cases r) auto
      from pq q r have "a = b" by simp
      with q r "1.prems"(1) show False by auto
    qed
    then show ?thesis by simp
  next
    case False
    show ?thesis
    proof (cases s)
      case Nil
      then have "replaceAll p r s = []" by (simp add: replaceAll_Nil)
      with "1.prems"(3) Nil show ?thesis by simp
    next
      case (Cons c cs)
      then have out: "replaceAll p r s = c # replaceAll p r cs"
        using False by (simp add: replaceAll_nomatch)
      show ?thesis
      proof (cases q)
        case Nil
        then show ?thesis by simp
      next
        case (Cons a q')
        with out "1.prems"(3) have "a = c" and "prefix q' (replaceAll p r cs)" by simp_all
        moreover from Cons "1.prems"(1) have "set r \<inter> set q' = {}" by auto
        ultimately have "prefix q' cs"
          using "1.IH"(2) [OF False \<open>s = c # cs\<close>] "1.prems"(2) by blast
        with \<open>a = c\<close> Cons \<open>s = c # cs\<close> show ?thesis by simp
      qed
    qed
  qed
qed

lemma sublist_append_disjoint:
  assumes "set r \<inter> set q = {}" and "q \<noteq> []" and "sublist q (r @ t)"
  shows "sublist q t"
proof -
  from assms(3) consider "sublist q r" | "sublist q t"
    | xs1 xs2 where "q = xs1 @ xs2" "suffix xs1 r" "prefix xs2 t"
    by (auto simp: sublist_append)
  then show ?thesis
  proof cases
    case 1
    then have "set q \<subseteq> set r" by (rule set_mono_sublist)
    with assms(1,2) show ?thesis by (cases q) auto
  next
    case 2
    then show ?thesis .
  next
    case 3
    have "xs1 = []"
    proof (rule ccontr)
      assume "xs1 \<noteq> []"
      then obtain a where "a \<in> set xs1" by (cases xs1) auto
      moreover from 3(2) have "set xs1 \<subseteq> set r" by (rule set_mono_suffix)
      ultimately show False using assms(1) 3(1) by auto
    qed
    with 3 show ?thesis by auto
  qed
qed

lemma replaceAll_sublist:
  "set r \<inter> set q = {} \<Longrightarrow> r \<noteq> [] \<Longrightarrow> q \<noteq> [] \<Longrightarrow> sublist q (replaceAll p r s) \<Longrightarrow> sublist q s"
proof (induction p r s rule: replaceAll.induct)
  case (1 p r s)
  show ?case
  proof (cases "p \<noteq> [] \<and> length p \<le> length s \<and> take (length p) s = p")
    case True
    then have "replaceAll p r s = r @ replaceAll p r (drop (length p) s)"
      by (rule replaceAll_match)
    with "1.prems" have "sublist q (replaceAll p r (drop (length p) s))"
      using sublist_append_disjoint by metis
    with "1.IH"(1) [OF True] "1.prems" have "sublist q (drop (length p) s)" by blast
    then show ?thesis by (meson sublist_drop sublist_order.order_trans)
  next
    case False
    show ?thesis
    proof (cases s)
      case Nil
      then have "replaceAll p r s = []" by (simp add: replaceAll_Nil)
      with "1.prems" show ?thesis by simp
    next
      case (Cons c cs)
      then have out: "replaceAll p r s = c # replaceAll p r cs"
        using False by (simp add: replaceAll_nomatch)
      with "1.prems"(4) consider "prefix q (replaceAll p r s)" | "sublist q (replaceAll p r cs)"
        by (auto simp: sublist_Cons_right)
      then show ?thesis
      proof cases
        case 1
        then have "prefix q s" using "1.prems"(1,2) by (rule replaceAll_prefix [rotated 2])
        then show ?thesis by auto
      next
        case 2
        with "1.IH"(2) [OF False Cons] "1.prems" have "sublist q cs" by blast
        with Cons show ?thesis by (simp add: sublist_Cons_right)
      qed
    qed
  qed
qed

lemma replaceAll_removes:
  "set r \<inter> set p = {} \<Longrightarrow> r \<noteq> [] \<Longrightarrow> p \<noteq> [] \<Longrightarrow> \<not> sublist p (replaceAll p r s)"
proof (induction p r s rule: replaceAll.induct)
  case (1 p r s)
  show ?case
  proof (cases "p \<noteq> [] \<and> length p \<le> length s \<and> take (length p) s = p")
    case True
    then have out: "replaceAll p r s = r @ replaceAll p r (drop (length p) s)"
      by (rule replaceAll_match)
    show ?thesis
    proof
      assume "sublist p (replaceAll p r s)"
      with out "1.prems" have "sublist p (replaceAll p r (drop (length p) s))"
        using sublist_append_disjoint by metis
      with "1.IH"(1) [OF True] "1.prems" show False by blast
    qed
  next
    case False
    show ?thesis
    proof (cases s)
      case Nil
      then have "replaceAll p r s = []" by (simp add: replaceAll_Nil)
      with "1.prems" show ?thesis by simp
    next
      case (Cons c cs)
      then have out: "replaceAll p r s = c # replaceAll p r cs"
        using False by (simp add: replaceAll_nomatch)
      show ?thesis
      proof
        assume "sublist p (replaceAll p r s)"
        with out consider "prefix p (replaceAll p r s)" | "sublist p (replaceAll p r cs)"
          by (auto simp: sublist_Cons_right)
        then show False
        proof cases
          case 1
          then have "prefix p s" using "1.prems"(1,2) by (rule replaceAll_prefix [rotated 2])
          then have "length p \<le> length s \<and> take (length p) s = p"
            by (auto simp: prefix_def)
          with False "1.prems" show False by simp
        next
          case 2
          with "1.IH"(2) [OF False Cons] "1.prems" show False by blast
        qed
      qed
    qed
  qed
qed

subsection \<open>White space before a line feed\<close>

definition hasWsNl :: "jsstring \<Rightarrow> bool" where
  "hasWsNl s = (\<exists>a. isWhiteSpace a \<and> sublist [a, 10] s)"

lemma hasWsNl_sublist: "sublist u s \<Longrightarrow> hasWsNl u \<Longrightarrow> hasWsNl s"
  unfolding hasWsNl_def by (meson sublist_order.order_trans)

lemma replaceAll_wsnl:
  assumes "\<not> hasWsNl s" and "\<forall>c\<in>set r. \<not> isWhiteSpace c" and "r \<noteq> []"
  shows "\<not> hasWsNl (replaceAll p r s)"
proof
  assume "hasWsNl (replaceAll p r s)"
  then obtain a where a: "isWhiteSpace a" "sublist [a, 10] (replaceAll p r s)"
    by (auto simp: hasWsNl_def)
  have "isWhiteSpace 10" by (simp add: isWhiteSpace_def)
  with a(1) assms(2) have "set r \<inter> set [a, 10] = {}" by auto
  with a(2) assms(3) have "sublist [a, 10] s"
    using replaceAll_sublist [of r "[a, 10]" p s] by simp
  with a(1) assms(1) show False by (auto simp: hasWsNl_def)
qed

lemma run_has_wsnl:
  assumes "10 \<in> set (tl (takeWhile isWhiteSpace s))"
  shows "hasWsNl s"
proof -
  define run where "run = takeWhile isWhiteSpace s"
  from assms obtain x run' where run: "run = x # run'" and "10 \<in> set run'"
    unfolding run_def by (cases "takeWhile isWhiteSpace s") auto
  then obtain us vs where split: "run' = us @ 10 # vs" by (meson split_list)
  define a where "a = last (x # us)"
  have "x # us = butlast (x # us) @ [a]" unfolding a_def by (rule append_butlast_last_id [symmetric]) simp
  with run split have "run = butlast (x # us) @ [a, 10] @ vs" by simp
  then have sub: "sublist [a, 10] run" by (metis sublist_appendI)
  have "a \<in> set (x # us)" unfolding a_def by (rule last_in_set) simp
  then have "a \<in> set run" using run split by auto
  then have "isWhiteSpace a" unfolding run_def by (meson set_takeWhileD)
  moreover have "sublist run s" unfolding run_def by simp
  ultimately show ?thesis using sub unfolding hasWsNl_def by (meson sublist_order.order_trans)
qed

lemma wsNlMatch_0: "\<not> hasWsNl s \<Longrightarrow> wsNlMatch s = 0"
  using run_has_wsnl [of s] by (auto simp: wsNlMatch_def Let_def)

lemma replaceWsNl_Nil: "replaceWsNl [] = []"
  by (subst replaceWsNl.simps) simp

lemma replaceWsNl_match:
  "0 < wsNlMatch (c # cs) \<Longrightarrow>
   replaceWsNl (c # cs) = 10 # replaceWsNl (drop (wsNlMatch (c # cs)) (c # cs))"
  by (subst replaceWsNl.simps) simp

lemma replaceWsNl_nomatch:
  "wsNlMatch (c # cs) = 0 \<Longrightarrow> replaceWsNl (c # cs) = c # replaceWsNl cs"
  by (subst replaceWsNl.simps) simp

lemma replaceWsNl_id: "\<not> hasWsNl s \<Longrightarrow> replaceWsNl s = s"
proof (induction s)
  case Nil
  then show ?case by (simp add: replaceWsNl_Nil)
next
  case (Cons c cs)
  have "sublist cs (c # cs)" by (simp add: sublist_Cons_right)
  with Cons.prems have "\<not> hasWsNl cs" using hasWsNl_sublist by blast
  with Cons.IH have "replaceWsNl cs = cs" .
  with Cons.prems show ?case by (simp add: replaceWsNl_nomatch wsNlMatch_0)
qed

lemma in_set_tl: "x \<in> set (tl xs) \<Longrightarrow> x \<in> set xs"
  by (cases xs) auto

lemma length_takeWhile_less:
  "x \<in> set xs \<Longrightarrow> \<not> P x \<Longrightarrow> length (takeWhile P xs) < length xs"
  by (induction xs) auto

lemma takeWhile_dropWhile_Nil: "takeWhile P (dropWhile P xs) = []"
  by (induction xs) auto

lemma wsNlMatch_rest:
  assumes "0 < wsNlMatch s"
  shows "10 \<notin> set (takeWhile isWhiteSpace (drop (wsNlMatch s) s))"
proof -
  define run where "run = takeWhile isWhiteSpace s"
  define k where "k = length (takeWhile (\<lambda>x. x \<noteq> 10) (rev run))"
  from assms have m: "wsNlMatch s = length run - k"
    unfolding run_def k_def by (auto simp: wsNlMatch_def Let_def split: if_splits)
  have s: "s = run @ dropWhile isWhiteSpace s" unfolding run_def by simp
  have "k \<le> length run" unfolding k_def using length_takeWhile_le [of _ "rev run"] by simp
  have "drop (length run - k) s = drop (length run - k) run @ dropWhile isWhiteSpace s"
    by (subst s) simp
  moreover have "drop (length run - k) run = rev (takeWhile (\<lambda>x. x \<noteq> 10) (rev run))"
  proof -
    have "takeWhile (\<lambda>x. x \<noteq> 10) (rev run) = take k (rev run)"
      unfolding k_def by (rule takeWhile_eq_take)
    then show ?thesis by (simp add: take_rev)
  qed
  ultimately have d: "drop (wsNlMatch s) s =
      rev (takeWhile (\<lambda>x. x \<noteq> 10) (rev run)) @ dropWhile isWhiteSpace s"
    using m by simp
  have all_ws: "\<forall>x\<in>set (rev (takeWhile (\<lambda>x. x \<noteq> 10) (rev run))). isWhiteSpace x"
    unfolding run_def by (auto dest!: set_takeWhileD)
  have no_nl: "10 \<notin> set (rev (takeWhile (\<lambda>x. x \<noteq> 10) (rev run)))"
    by (auto dest: set_takeWhileD)
  have "takeWhile isWhiteSpace (drop (wsNlMatch s) s) =
        rev (takeWhile (\<lambda>x. x \<noteq> 10) (rev run))"
  proof -
    have "takeWhile isWhiteSpace
            (rev (takeWhile (\<lambda>x. x \<noteq> 10) (rev run)) @ dropWhile isWhiteSpace s) =
          rev (takeWhile (\<lambda>x. x \<noteq> 10) (rev run)) @
          takeWhile isWhiteSpace (dropWhile isWhiteSpace s)"
      by (rule takeWhile_append2) (use all_ws in blast)
    then show ?thesis unfolding d by (simp only: takeWhile_dropWhile_Nil append_Nil2)
  qed
  with no_nl show ?thesis by simp
qed

lemma replaceWsNl_hd:
  "10 \<notin> set (takeWhile isWhiteSpace u) \<Longrightarrow> \<not> prefix [10] (replaceWsNl u)"
proof (cases u)
  case Nil
  then show ?thesis by (simp add: replaceWsNl_Nil)
next
  case (Cons c cs)
  assume a: "10 \<notin> set (takeWhile isWhiteSpace u)"
  have "10 \<notin> set (tl (takeWhile isWhiteSpace u))"
    using a by (auto dest: in_set_tl)
  then have "wsNlMatch u = 0" by (simp add: wsNlMatch_def)
  then have "replaceWsNl u = c # replaceWsNl cs" using Cons by (simp add: replaceWsNl_nomatch)
  moreover have "c \<noteq> 10" using a Cons by (auto simp: isWhiteSpace_def)
  ultimately show ?thesis by simp
qed

lemma replaceWsNl_free: "\<not> hasWsNl (replaceWsNl s)"
proof (induction s rule: replaceWsNl.induct)
  case (1 s)
  show ?case
  proof (cases s)
    case Nil
    then show ?thesis by (simp add: replaceWsNl_Nil hasWsNl_def)
  next
    case (Cons c cs)
    show ?thesis
    proof (cases "0 < wsNlMatch s")
      case True
      then have out: "replaceWsNl s = 10 # replaceWsNl (drop (wsNlMatch s) s)"
        using Cons by (simp add: replaceWsNl_match)
      have ih: "\<not> hasWsNl (replaceWsNl (drop (wsNlMatch s) s))"
        using "1.IH"(1) [OF Cons True] .
      have hd: "\<not> prefix [10] (replaceWsNl (drop (wsNlMatch s) s))"
        using wsNlMatch_rest [OF True] by (rule replaceWsNl_hd)
      show ?thesis
      proof
        assume "hasWsNl (replaceWsNl s)"
        then obtain a where "isWhiteSpace a"
          and "sublist [a, 10] (10 # replaceWsNl (drop (wsNlMatch s) s))"
          using out by (auto simp: hasWsNl_def)
        then show False using ih hd by (auto simp: sublist_Cons_right hasWsNl_def)
      qed
    next
      case False
      then have out: "replaceWsNl s = c # replaceWsNl cs"
        using Cons by (simp add: replaceWsNl_nomatch)
      have ih: "\<not> hasWsNl (replaceWsNl cs)"
        using "1.IH"(2) [OF Cons False] .
      show ?thesis
      proof
        assume "hasWsNl (replaceWsNl s)"
        then obtain a where a: "isWhiteSpace a" and "sublist [a, 10] (c # replaceWsNl cs)"
          using out by (auto simp: hasWsNl_def)
        then have "a = c" and p: "prefix [10] (replaceWsNl cs)"
          using ih by (auto simp: sublist_Cons_right hasWsNl_def)
        have "10 \<notin> set (tl (takeWhile isWhiteSpace s))"
        proof -
          have "0 < wsNlMatch s" if "10 \<in> set (tl (takeWhile isWhiteSpace s))"
          proof -
            from that have "10 \<in> set (rev (takeWhile isWhiteSpace s))"
              by (auto dest: in_set_tl)
            then have "length (takeWhile (\<lambda>x. x \<noteq> 10) (rev (takeWhile isWhiteSpace s)))
                        < length (rev (takeWhile isWhiteSpace s))"
              by (rule length_takeWhile_less) simp
            with that show ?thesis by (simp add: wsNlMatch_def Let_def)
          qed
          with False show ?thesis by auto
        qed
        with a \<open>a = c\<close> Cons have "10 \<notin> set (takeWhile isWhiteSpace cs)" by simp
        then have "\<not> prefix [10] (replaceWsNl cs)" by (rule replaceWsNl_hd)
        with p show False by simp
      qed
    qed
  qed
qed

lemma set_replaceWsNl: "set (replaceWsNl s) \<subseteq> insert 10 (set s)"
proof (induction s rule: replaceWsNl.induct)
  case (1 s)
  show ?case
  proof (cases s)
    case Nil
    then show ?thesis by (simp add: replaceWsNl_Nil)
  next
    case (Cons c cs)
    show ?thesis
    proof (cases "0 < wsNlMatch s")
      case True
      have "set (drop (wsNlMatch s) s) \<subseteq> set s" by (rule set_drop_subset)
      with "1.IH"(1) [OF Cons True] True Cons show ?thesis
        by (auto simp: replaceWsNl_match)
    next
      case False
      with "1.IH"(2) [OF Cons False] Cons show ?thesis
        by (auto simp: replaceWsNl_nomatch)
    qed
  qed
qed

section \<open>Text normalisation is idempotent\<close>

lemma sublist_trim: "sublist (trim s) s"
proof -
  have "sublist (dropWhile isWhiteSpace (rev (dropWhile isWhiteSpace s)))
          (rev (dropWhile isWhiteSpace s))"
    by simp
  then have "sublist (trim s) (dropWhile isWhiteSpace s)"
    unfolding trim_def by (simp add: sublist_rev_left)
  moreover have "sublist (dropWhile isWhiteSpace s) s" by simp
  ultimately show ?thesis by (rule sublist_order.order_trans)
qed

lemma dropWhile_hd: "xs \<noteq> [] \<Longrightarrow> \<not> P (hd xs) \<Longrightarrow> dropWhile P xs = xs"
  by (cases xs) auto

lemma trim_fixed:
  assumes "s = [] \<or> (\<not> isWhiteSpace (hd s) \<and> \<not> isWhiteSpace (last s))"
  shows "trim s = s"
proof (cases s)
  case Nil
  then show ?thesis by (simp add: trim_def)
next
  case (Cons c cs)
  with assms have h: "\<not> isWhiteSpace c" and l: "\<not> isWhiteSpace (last s)" by auto
  from h Cons have 1: "dropWhile isWhiteSpace s = s" by simp
  from Cons have "rev s \<noteq> []" by simp
  moreover have "hd (rev s) = last s" using Cons by (simp add: hd_rev)
  ultimately have 2: "dropWhile isWhiteSpace (rev s) = rev s"
    using l by (intro dropWhile_hd) simp_all
  show ?thesis by (simp add: trim_def 1 2)
qed

lemma trim_ends:
  "trim s = [] \<or> (\<not> isWhiteSpace (hd (trim s)) \<and> \<not> isWhiteSpace (last (trim s)))"
proof (cases "trim s = []")
  case True
  then show ?thesis by simp
next
  case False
  define u where "u = dropWhile isWhiteSpace s"
  define w where "w = dropWhile isWhiteSpace (rev u)"
  have t: "trim s = rev w" by (simp add: trim_def u_def w_def)
  with False have w: "w \<noteq> []" by simp
  then have hw: "\<not> isWhiteSpace (hd w)" unfolding w_def by (rule hd_dropWhile)
  from w have u: "u \<noteq> []" unfolding w_def by auto
  then have hu: "\<not> isWhiteSpace (hd u)" unfolding u_def by (rule hd_dropWhile)
  have "suffix w (rev u)" unfolding w_def by (rule suffix_dropWhile)
  then obtain zs where "rev u = zs @ w" by (auto simp: suffix_def)
  with w have "last w = last (rev u)" by simp
  also have "\<dots> = hd u" using u by (simp add: last_rev)
  finally have "last w = hd u" .
  with hu hw w show ?thesis by (simp add: t hd_rev last_rev)
qed

lemma trim_idem: "trim (trim s) = trim s"
  by (rule trim_fixed) (rule trim_ends)

definition mojibake :: "jsstring \<Rightarrow> jsstring" where
  "mojibake s =
      replaceAll [112, 105, 195, 185] [112, 105, 249]
      (replaceAll [195, 185] [249]
      (replaceAll [195, 178] [242]
      (replaceAll [195, 172] [236]
      (replaceAll [195, 169] [233]
      (replaceAll [195, 168] [232]
      (replaceAll [195, 32] [224]
      (replaceAll [226, 8364, 34] [8211]
      (replaceAll [226, 8364, 34] [8212]
      (replaceAll [226, 8364] [34]
      (replaceAll [226, 8364, 339] [34]
      (replaceAll [226, 8364, 8482] [39] s)))))))))))"

definition mojibakeFree :: "jsstring \<Rightarrow> bool" where
  "mojibakeFree y =
     (\<not> sublist [226, 8364] y \<and> \<not> sublist [195, 32] y \<and> \<not> sublist [195, 168] y \<and>
      \<not> sublist [195, 169] y \<and> \<not> sublist [195, 172] y \<and> \<not> sublist [195, 178] y \<and>
      \<not> sublist [195, 185] y)"

lemma replaceAll_keep:
  "\<not> sublist q s \<Longrightarrow> set r \<inter> set q = {} \<Longrightarrow> r \<noteq> [] \<Longrightarrow> q \<noteq> [] \<Longrightarrow>
   \<not> sublist q (replaceAll p r s)"
  using replaceAll_sublist by blast

lemma replaceAll_id_part:
  "\<not> sublist q s \<Longrightarrow> sublist q p \<Longrightarrow> replaceAll p r s = s"
  by (rule replaceAll_id) (meson sublist_order.order_trans)

lemma mojibake_fixed:
  assumes "mojibakeFree y"
  shows "mojibake y = y"
proof -
  have a: "\<not> sublist [226, 8364] y" and b: "\<not> sublist [195, 32] y"
    and c: "\<not> sublist [195, 168] y" and d: "\<not> sublist [195, 169] y"
    and e: "\<not> sublist [195, 172] y" and f: "\<not> sublist [195, 178] y"
    and g: "\<not> sublist [195, 185] y"
    using assms by (simp_all add: mojibakeFree_def)
  have 1: "replaceAll [226, 8364, 8482] r y = y" for r
    by (rule replaceAll_id_part [OF a]) (simp add: sublist_code)
  have 2: "replaceAll [226, 8364, 339] r y = y" for r
    by (rule replaceAll_id_part [OF a]) (simp add: sublist_code)
  have 3: "replaceAll [226, 8364] r y = y" for r
    by (rule replaceAll_id [OF a])
  have 4: "replaceAll [226, 8364, 34] r y = y" for r
    by (rule replaceAll_id_part [OF a]) (simp add: sublist_code)
  have 5: "replaceAll [195, 32] r y = y" "replaceAll [195, 168] r y = y"
    "replaceAll [195, 169] r y = y" "replaceAll [195, 172] r y = y"
    "replaceAll [195, 178] r y = y" "replaceAll [195, 185] r y = y" for r
    using b c d e f g by (simp_all add: replaceAll_id)
  have 6: "replaceAll [112, 105, 195, 185] r y = y" for r
    by (rule replaceAll_id_part [OF g]) (simp add: sublist_code)
  show ?thesis by (simp only: mojibake_def 1 2 3 4 5 6)
qed

lemma mojibake_keep:
  assumes "\<not> sublist q s" and "q \<noteq> []"
    and "set q \<inter> set [39, 34, 8212, 8211, 224, 232, 233, 236, 242, 249, 112, 105] = {}"
  shows "\<not> sublist q (mojibake s)"
  unfolding mojibake_def using assms by (intro replaceAll_keep) auto

lemma mojibake_wsnl: "\<not> hasWsNl s \<Longrightarrow> \<not> hasWsNl (mojibake s)"
  unfolding mojibake_def by (intro replaceAll_wsnl) (auto simp: isWhiteSpace_def)

lemma mojibake_free: "mojibakeFree (mojibake s)"
  unfolding mojibakeFree_def mojibake_def
  by (intro conjI; (rule replaceAll_removes | rule replaceAll_keep)+) simp_all

text \<open>
  C7. Cleaning a text twice gives the same result as cleaning it once, for the
  \<open>cleanScriptText\<close> of the hybrid parser (line endings, tabs to spaces, white space
  before a line feed, mojibake, trim) and for the one of the document parser (line
  endings and mojibake only). After one pass the text has no carriage return, no tab, no
  white space before a line feed, none of the mojibake patterns, and no white space at
  either end, and on such a text every step of the chain is the identity.
\<close>

theorem cleanScriptText_idempotent:
  "cleanScriptText (cleanScriptText x) = cleanScriptText x \<and>
   doc_cleanScriptText (doc_cleanScriptText x) = doc_cleanScriptText x"
proof
  define b2 where "b2 = replaceAll [13] [10] (replaceAll [13, 10] [10] x)"
  define b3 where "b3 = replaceAll [9] (js ''    '') b2"
  define b4 where "b4 = replaceWsNl b3"
  define y where "y = trim (mojibake b4)"
  have y: "cleanScriptText x = y"
    by (simp only: cleanScriptText_def mojibake_def y_def b4_def b3_def b2_def)
  have cr2: "13 \<notin> set b2"
    unfolding b2_def using replaceAll_removes [of "[10]" "[13]"] by (simp add: sublist_single)
  have cr3: "13 \<notin> set b3"
    unfolding b3_def using cr2 replaceAll_keep [of "[13]" b2 "js ''    ''" "[9]"]
    by (simp add: sublist_single)
  have tab3: "9 \<notin> set b3"
    unfolding b3_def using replaceAll_removes [of "js ''    ''" "[9]" b2]
    by (simp add: sublist_single)
  have cr4: "13 \<notin> set b4" and tab4: "9 \<notin> set b4"
    unfolding b4_def using set_replaceWsNl [of b3] cr3 tab3 by auto
  have ws4: "\<not> hasWsNl b4" unfolding b4_def by (rule replaceWsNl_free)
  have sub: "sublist y (mojibake b4)" unfolding y_def by (rule sublist_trim)
  have cr: "13 \<notin> set y"
    using mojibake_keep [of "[13]" b4] cr4 set_mono_sublist [OF sub]
    by (auto simp: sublist_single)
  have tab: "9 \<notin> set y"
    using mojibake_keep [of "[9]" b4] tab4 set_mono_sublist [OF sub]
    by (auto simp: sublist_single)
  have ws: "\<not> hasWsNl y"
    using mojibake_wsnl [OF ws4] hasWsNl_sublist [OF sub] by blast
  have mf: "mojibakeFree y"
    using mojibake_free [of b4] sub unfolding mojibakeFree_def
    by (meson sublist_order.order_trans)
  have tr: "trim y = y" unfolding y_def by (rule trim_idem)
  have "replaceAll [13, 10] [10] y = y"
    by (rule replaceAll_id) (use cr set_mono_sublist in fastforce)
  moreover have "replaceAll [13] [10] y = y"
    by (rule replaceAll_id) (simp add: sublist_single cr)
  moreover have "replaceAll [9] (js ''    '') y = y"
    by (rule replaceAll_id) (simp add: sublist_single tab)
  moreover have "replaceWsNl y = y" using ws by (rule replaceWsNl_id)
  moreover have "mojibake y = y" using mf by (rule mojibake_fixed)
  ultimately have "trim (mojibake (replaceWsNl (replaceAll [9] (js ''    '')
      (replaceAll [13] [10] (replaceAll [13, 10] [10] y))))) = y"
    using tr by simp
  then have "cleanScriptText y = y"
    by (simp only: cleanScriptText_def mojibake_def)
  then show "cleanScriptText (cleanScriptText x) = cleanScriptText x"
    by (simp only: y)
next
  define d2 where "d2 = replaceAll [13] [10] (replaceAll [13, 10] [10] x)"
  define y where "y = mojibake (replaceAll [9] [9] d2)"
  have y: "doc_cleanScriptText x = y"
    by (simp only: doc_cleanScriptText_def mojibake_def y_def d2_def)
  have cr2: "13 \<notin> set d2"
    unfolding d2_def using replaceAll_removes [of "[10]" "[13]"] by (simp add: sublist_single)
  have cr: "13 \<notin> set y"
    unfolding y_def using mojibake_keep [of "[13]" d2] cr2
    by (simp add: sublist_single replaceAll_same)
  have mf: "mojibakeFree y" unfolding y_def by (rule mojibake_free)
  have "replaceAll [13, 10] [10] y = y"
    by (rule replaceAll_id) (use cr set_mono_sublist in fastforce)
  moreover have "replaceAll [13] [10] y = y"
    by (rule replaceAll_id) (simp add: sublist_single cr)
  moreover have "mojibake y = y" using mf by (rule mojibake_fixed)
  ultimately have "mojibake (replaceAll [9] [9]
      (replaceAll [13] [10] (replaceAll [13, 10] [10] y))) = y"
    by (simp add: replaceAll_same)
  then have "doc_cleanScriptText y = y"
    by (simp only: doc_cleanScriptText_def mojibake_def)
  then show "doc_cleanScriptText (doc_cleanScriptText x) = doc_cleanScriptText x"
    by (simp only: y)
qed

section \<open>The heading without a time of day\<close>

text \<open>
  C4. The heading \<open>INT. CAR\<close> is a scene heading by the last-resort rule only. The
  hybrid parser gives it the location \<open>CAR\<close> and the time \<open>DAY\<close>, as the claim
  says. The document parser accepts the same heading with the same \<open>isSceneHeading\<close>,
  but its \<open>parseSceneHeading\<close> tries the first pattern only and leaves the location
  at \<open>Unknown\<close>.
\<close>

theorem doc_parseSceneHeading_INT_CAR:
  "isSceneHeading (js ''INT. CAR'') \<and>
   doc_parseSceneHeading (js ''INT. CAR'') =
     \<lparr>sd_intExt = js ''INT'', sd_location = js ''Unknown'', sd_time = js ''DAY''\<rparr> \<and>
   parseSceneHeading (js ''INT. CAR'') =
     \<lparr>sd_intExt = js ''INT'', sd_location = js ''CAR'', sd_time = js ''DAY''\<rparr>"
  by (simp add: ev doc_parseSceneHeading_def)

section \<open>Invariants of the scene loops\<close>

lemma parseLoop_done: "length allLines \<le> i \<Longrightarrow> parseLoop allLines i st = st"
  by (subst parseLoop.simps) simp

lemma parseLoop_step:
  "i < length allLines \<Longrightarrow>
   parseLoop allLines i st =
     parseLoop allLines (fst (loopBody allLines i st)) (snd (loopBody allLines i st))"
  by (subst parseLoop.simps) simp

lemma parseLoop_invariant_aux:
  "(\<forall>i st. P st \<longrightarrow> i < length allLines \<longrightarrow> P (snd (loopBody allLines i st))) \<Longrightarrow>
   P st \<Longrightarrow> P (parseLoop allLines i st)"
proof (induction allLines i st rule: parseLoop.induct)
  case (1 allLines i st)
  show ?case
  proof (cases "length allLines \<le> i")
    case True
    with "1.prems"(2) show ?thesis by (simp only: parseLoop_done)
  next
    case False
    then have i: "i < length allLines" by simp
    from "1.prems"(1) have "P st \<longrightarrow> i < length allLines \<longrightarrow> P (snd (loopBody allLines i st))"
      by (elim allE)
    with "1.prems"(2) i have "P (snd (loopBody allLines i st))" by (elim impE)
    with "1.IH" [OF False "1.prems"(1)]
    have "P (parseLoop allLines (fst (loopBody allLines i st))
        (snd (loopBody allLines i st)))" .
    then show ?thesis by (simp only: parseLoop_step [OF i])
  qed
qed

lemma parseLoop_invariant:
  assumes "P st"
    and "\<And>i st. P st \<Longrightarrow> i < length allLines \<Longrightarrow> P (snd (loopBody allLines i st))"
  shows "P (parseLoop allLines i st)"
proof (rule parseLoop_invariant_aux)
  show "\<forall>i st. P st \<longrightarrow> i < length allLines \<longrightarrow> P (snd (loopBody allLines i st))"
    using assms(2) by (intro allI impI)
  show "P st" by (rule assms(1))
qed

text \<open>The scene after a cue, and the shapes of the state after one iteration.\<close>

definition cueScene :: "OpenScene \<Rightarrow> jsstring \<Rightarrow> jsstring list \<Rightarrow> OpenScene" where
  "cueScene cs characterName dialogueLines =
     (if dialogueLines \<noteq> []
      then cs\<lparr>charactersInScene := add (charactersInScene cs) characterName,
              actors := setAdd (actors cs) characterName,
              dialogue := dialogue cs @
                [\<lparr>character = characterName, dtext = join [32] dialogueLines\<rparr>]\<rparr>
      else cs\<lparr>charactersInScene := add (charactersInScene cs) characterName,
              actors := setAdd (actors cs) characterName\<rparr>)"

lemma loopBody_cases [case_names same heading cue action]:
  fixes allLines i st
  defines "line \<equiv> l_text (allLines ! i)"
  defines "r \<equiv> collectDialogue (map l_text allLines) (i + 1) [] (sceneLines st @ [line])"
  obtains "snd (loopBody allLines i st) = st"
  | "\<not> isPageNumber line" "\<not> isPageFooter line" "isSceneHeading line"
    "snd (loopBody allLines i st) =
       \<lparr>scenes = pushCurrent st,
        currentScene = Some (openScene (pushCurrent st) (allLines ! i)),
        currentCharacter = None, sceneLines = [line]\<rparr>"
  | cs where "\<not> isPageNumber line" "\<not> isPageFooter line" "currentScene st = Some cs"
    "isCharacterName line (map l_text allLines) i"
    "snd (loopBody allLines i st) =
       st\<lparr>currentScene := Some (cueScene cs (cleanCharacterName line) (fst (snd r))),
          currentCharacter := Some (cleanCharacterName line),
          sceneLines := snd (snd r)\<rparr>"
  | cs where "\<not> isPageNumber line" "\<not> isPageFooter line" "currentScene st = Some cs"
    "snd (loopBody allLines i st) =
       st\<lparr>currentScene :=
            Some (if \<not> isTransition line \<and> \<not> looksLikeCharacterName line
                  then cs\<lparr>actions := actions cs @ [line]\<rparr> else cs),
          sceneLines := sceneLines st @ [line]\<rparr>"
proof -
  consider (a) "isPageNumber line \<or> isPageFooter line"
    | (b) "\<not> (isPageNumber line \<or> isPageFooter line)" "isSceneHeading line"
    | (c) "\<not> (isPageNumber line \<or> isPageFooter line)" "\<not> isSceneHeading line"
        "currentScene st = None"
    | (d) cs where "\<not> (isPageNumber line \<or> isPageFooter line)" "\<not> isSceneHeading line"
        "currentScene st = Some cs" "isCharacterName line (map l_text allLines) i"
    | (e) cs where "\<not> (isPageNumber line \<or> isPageFooter line)" "\<not> isSceneHeading line"
        "currentScene st = Some cs" "\<not> isCharacterName line (map l_text allLines) i"
    by (cases "currentScene st") auto
  then show thesis
  proof cases
    case a
    then have "snd (loopBody allLines i st) = st"
      by (simp add: loopBody_def line_def Let_def)
    then show ?thesis by (rule that(1))
  next
    case b
    then have "snd (loopBody allLines i st) =
       \<lparr>scenes = pushCurrent st,
        currentScene = Some (openScene (pushCurrent st) (allLines ! i)),
        currentCharacter = None, sceneLines = [line]\<rparr>"
      by (simp add: loopBody_def line_def Let_def)
    with b show ?thesis by (intro that(2)) simp_all
  next
    case c
    then have "snd (loopBody allLines i st) = st"
      by (simp add: loopBody_def line_def Let_def)
    then show ?thesis by (rule that(1))
  next
    case d
    then have "snd (loopBody allLines i st) =
       st\<lparr>currentScene := Some (cueScene cs (cleanCharacterName line) (fst (snd r))),
          currentCharacter := Some (cleanCharacterName line),
          sceneLines := snd (snd r)\<rparr>"
      by (simp add: loopBody_def line_def r_def cueScene_def Let_def)
    with d show ?thesis by (intro that(3) [of cs]) simp_all
  next
    case e
    then have "snd (loopBody allLines i st) =
       st\<lparr>currentScene :=
            Some (if \<not> isTransition line \<and> \<not> looksLikeCharacterName line
                  then cs\<lparr>actions := actions cs @ [line]\<rparr> else cs),
          sceneLines := sceneLines st @ [line]\<rparr>"
      by (simp add: loopBody_def line_def Let_def)
    with e show ?thesis by (intro that(4) [of cs]) simp_all
  qed
qed

lemma openScene_fields [simp]:
  "sceneNumber (openScene scs lineObj) = Suc (length scs)"
  "dialogue (openScene scs lineObj) = []"
  "actions (openScene scs lineObj) = []"
  "actors (openScene scs lineObj) = []"
  "heading (openScene scs lineObj) = l_text lineObj"
  by (simp_all add: openScene_def Let_def)

lemma sealScene_fields [simp]:
  "sceneNumber (sealScene cs sl) = sceneNumber cs"
  "dialogue (sealScene cs sl) = dialogue cs"
  "actions (sealScene cs sl) = actions cs"
  "actors (sealScene cs sl) = actors cs"
  "fullText (sealScene cs sl) = join [10] sl"
  by (simp_all add: sealScene_def)

lemma cueScene_fields [simp]:
  "sceneNumber (cueScene cs n dl) = sceneNumber cs"
  "actions (cueScene cs n dl) = actions cs"
  "actors (cueScene cs n dl) = setAdd (actors cs) n"
  "dialogue (cueScene cs n dl) =
     (if dl \<noteq> [] then dialogue cs @ [\<lparr>character = n, dtext = join [32] dl\<rparr>]
      else dialogue cs)"
  by (simp_all add: cueScene_def)

subsection \<open>Scene numbers\<close>

definition numbered :: "ParseState \<Rightarrow> bool" where
  "numbered st =
     (map sceneNumber (scenes st) = [1..<Suc (length (scenes st))] \<and>
      (\<forall>cs. currentScene st = Some cs \<longrightarrow> sceneNumber cs = Suc (length (scenes st))))"

lemma numbered_pushCurrent:
  "numbered st \<Longrightarrow> map sceneNumber (pushCurrent st) = [1..<Suc (length (pushCurrent st))]"
  by (cases "currentScene st") (simp_all add: numbered_def pushCurrent_def)

lemma numbered_loopBody: "numbered st \<Longrightarrow> numbered (snd (loopBody allLines i st))"
proof (cases rule: loopBody_cases [of allLines i st])
  case same
  assume "numbered st"
  with same show ?thesis by simp
next
  case heading
  assume "numbered st"
  then have "map sceneNumber (pushCurrent st) = [1..<Suc (length (pushCurrent st))]"
    by (rule numbered_pushCurrent)
  with heading(4) show ?thesis by (simp add: numbered_def)
next
  case (cue cs)
  assume "numbered st"
  with cue(3,5) show ?thesis by (simp add: numbered_def)
next
  case (action cs)
  assume "numbered st"
  with action(3,4) show ?thesis by (simp add: numbered_def)
qed

lemma sceneNumbers_parseScenes:
  "map sceneNumber (parseScenes pages) = [1..<Suc (length (parseScenes pages))]"
proof -
  have "numbered \<lparr>scenes = [], currentScene = None, currentCharacter = None, sceneLines = []\<rparr>"
    by (simp add: numbered_def)
  then have "numbered (parseLoop (flattenPages pages) 0
      \<lparr>scenes = [], currentScene = None, currentCharacter = None, sceneLines = []\<rparr>)"
    by (rule parseLoop_invariant) (rule numbered_loopBody)
  then have "map sceneNumber (pushedScenes pages) = [1..<Suc (length (pushedScenes pages))]"
    unfolding pushedScenes_def by (rule numbered_pushCurrent)
  then show ?thesis by (simp add: parseScenes_def comp_def)
qed

lemma prefix_pushCurrent: "prefix (scenes st) (pushCurrent st)"
  by (cases "currentScene st") (simp_all add: pushCurrent_def)

lemma scenes_loopBody: "prefix (scenes st) (scenes (snd (loopBody allLines i st)))"
  using prefix_pushCurrent [of st]
  by (cases rule: loopBody_cases [of allLines i st]) simp_all

lemma scenes_parseLoop: "prefix (scenes st) (scenes (parseLoop allLines i st))"
proof (rule parseLoop_invariant [where P = "\<lambda>st' :: ParseState. prefix (scenes st) (scenes st')"])
  show "prefix (scenes st) (scenes st)" by simp
next
  fix i and st' :: ParseState
  assume "prefix (scenes st) (scenes st')"
  then show "prefix (scenes st) (scenes (snd (loopBody allLines i st')))"
    using scenes_loopBody [of st' allLines i] by (rule prefix_order.order_trans)
qed

text \<open>The document parser: the fold over the pages and their lines.\<close>

definition doc_numbered :: "DocState \<Rightarrow> bool" where
  "doc_numbered st =
     (map doc_sceneNumber (ds_scenes st) = [1..<Suc (length (ds_scenes st))] \<and>
      (case ds_currentScene st of
         None \<Rightarrow> ds_sceneNumber st = Suc (length (ds_scenes st))
       | Some cs \<Rightarrow> doc_sceneNumber cs = Suc (length (ds_scenes st)) \<and>
                   ds_sceneNumber st = Suc (Suc (length (ds_scenes st)))))"

lemma doc_numbered_pushCurrent:
  "doc_numbered st \<Longrightarrow>
   map doc_sceneNumber (doc_pushCurrent st) = [1..<Suc (length (doc_pushCurrent st))] \<and>
   ds_sceneNumber st = Suc (length (doc_pushCurrent st))"
  by (cases "ds_currentScene st")
    (simp_all add: doc_numbered_def doc_pushCurrent_def doc_sealScene_def)

lemma doc_numbered_lineStep:
  "doc_numbered st \<Longrightarrow> doc_numbered (doc_lineStep pageNo lines0 st x)"
proof -
  assume n: "doc_numbered st"
  note h = doc_numbered_pushCurrent [OF n]
  show ?thesis
    using n h
    by (auto simp: doc_lineStep_def Let_def doc_numbered_def split: option.split)
qed

lemma foldl_invariant:
  "P a \<Longrightarrow> (\<And>a x. P a \<Longrightarrow> P (f a x)) \<Longrightarrow> P (foldl f a xs)"
  by (induction xs arbitrary: a) simp_all

lemma doc_numbered_pageStep: "doc_numbered st \<Longrightarrow> doc_numbered (doc_pageStep st page0)"
  unfolding doc_pageStep_def Let_def
  by (rule foldl_invariant) (simp_all add: doc_numbered_lineStep)

lemma sceneNumbers_analyzeScenes:
  "map doc_sceneNumber (analyzeScenes textPages) = [1..<Suc (length (analyzeScenes textPages))]"
proof -
  have "doc_numbered \<lparr>ds_scenes = [], ds_currentScene = None, ds_sceneLines = [],
      ds_sceneNumber = 1\<rparr>"
    by (simp add: doc_numbered_def)
  then have "doc_numbered (foldl doc_pageStep \<lparr>ds_scenes = [], ds_currentScene = None,
      ds_sceneLines = [], ds_sceneNumber = 1\<rparr> textPages)"
    by (rule foldl_invariant) (rule doc_numbered_pageStep)
  then show ?thesis unfolding analyzeScenes_def using doc_numbered_pushCurrent by blast
qed

lemma prefix_doc_pushCurrent: "prefix (ds_scenes st) (doc_pushCurrent st)"
  by (cases "ds_currentScene st") (simp_all add: doc_pushCurrent_def)

lemma scenes_doc_lineStep:
  "prefix (ds_scenes st) (ds_scenes (doc_lineStep pageNo lines0 st x))"
  using prefix_doc_pushCurrent [of st]
  by (auto simp: doc_lineStep_def Let_def split: option.split)

lemma scenes_doc_pageStep: "prefix (ds_scenes st) (ds_scenes (doc_pageStep st page0))"
  unfolding doc_pageStep_def Let_def
proof (rule foldl_invariant [where P = "\<lambda>st' :: DocState. prefix (ds_scenes st) (ds_scenes st')"])
  show "prefix (ds_scenes st) (ds_scenes st)" by simp
next
  fix a :: DocState and x
  assume "prefix (ds_scenes st) (ds_scenes a)"
  then show "prefix (ds_scenes st)
      (ds_scenes (doc_lineStep (tp_pageNumber page0) (splitOn 10 (tp_rawText page0)) a x))"
    using scenes_doc_lineStep by (rule prefix_order.order_trans)
qed

lemma scenes_doc_fold: "prefix (ds_scenes st) (ds_scenes (foldl doc_pageStep st textPages))"
proof (rule foldl_invariant [where P = "\<lambda>st' :: DocState. prefix (ds_scenes st) (ds_scenes st')"])
  show "prefix (ds_scenes st) (ds_scenes st)" by simp
next
  fix a :: DocState and x
  assume "prefix (ds_scenes st) (ds_scenes a)"
  then show "prefix (ds_scenes st) (ds_scenes (doc_pageStep a x))"
    using scenes_doc_pageStep by (rule prefix_order.order_trans)
qed

subsection \<open>The headings of the scenes\<close>

text \<open>The lines at which the loops open a scene.\<close>

definition opensScene :: "jsstring \<Rightarrow> bool" where
  "opensScene l = (\<not> isPageNumber l \<and> \<not> isPageFooter l \<and> isSceneHeading l)"

lemma isSceneHeading_Nil: "\<not> isSceneHeading []"
  by (simp add: ev)

lemma sealScene_heading [simp]: "heading (sealScene cs sl) = heading cs"
  by (simp add: sealScene_def)

lemma cueScene_heading [simp]: "heading (cueScene cs n dl) = heading cs"
  by (simp add: cueScene_def)

lemma loopBody_index:
  "fst (loopBody allLines i st) =
     (if \<not> isPageNumber (l_text (allLines ! i)) \<and> \<not> isPageFooter (l_text (allLines ! i)) \<and>
         \<not> isSceneHeading (l_text (allLines ! i)) \<and> currentScene st \<noteq> None \<and>
         isCharacterName (l_text (allLines ! i)) (map l_text allLines) i
      then fst (collectDialogue (map l_text allLines) (i + 1) []
                  (sceneLines st @ [l_text (allLines ! i)]))
      else i + 1)"
  by (cases "currentScene st") (simp_all add: loopBody_def Let_def)

text \<open>The dialogue loop goes past no scene heading.\<close>

lemma collectDialogue_skips:
  "j \<le> k \<Longrightarrow> k < fst (collectDialogue allLines j dl sl) \<Longrightarrow>
   k < length allLines \<and> \<not> isSceneHeading (trim (allLines ! k))"
proof (induction allLines j dl sl rule: collectDialogue.induct)
  case (1 allLines j dialogueLines sceneLines)
  show ?case
  proof (cases "j < length allLines")
    case False
    then have "collectDialogue allLines j dialogueLines sceneLines =
        (j, dialogueLines, sceneLines)"
      by (subst collectDialogue.simps) simp
    with "1.prems" show ?thesis by simp
  next
    case True
    define nextLine where "nextLine = trim (allLines ! j)"
    consider (blank) "nextLine = []"
      | (stop) "nextLine \<noteq> []"
          "isCharacterName nextLine allLines j \<or> isSceneHeading nextLine \<or>
           isTransition nextLine \<or> isPageNumber nextLine \<or> isPageFooter nextLine"
      | (paren) "nextLine \<noteq> []"
          "\<not> (isCharacterName nextLine allLines j \<or> isSceneHeading nextLine \<or>
           isTransition nextLine \<or> isPageNumber nextLine \<or> isPageFooter nextLine)"
          "isParenthetical nextLine"
      | (act) "nextLine \<noteq> []"
          "\<not> (isCharacterName nextLine allLines j \<or> isSceneHeading nextLine \<or>
           isTransition nextLine \<or> isPageNumber nextLine \<or> isPageFooter nextLine)"
          "\<not> isParenthetical nextLine" "isLikelyActionLine nextLine"
      | (dia) "nextLine \<noteq> []"
          "\<not> (isCharacterName nextLine allLines j \<or> isSceneHeading nextLine \<or>
           isTransition nextLine \<or> isPageNumber nextLine \<or> isPageFooter nextLine)"
          "\<not> isParenthetical nextLine" "\<not> isLikelyActionLine nextLine"
      by blast
    then show ?thesis
    proof cases
      case blank
      then have eq: "collectDialogue allLines j dialogueLines sceneLines =
          collectDialogue allLines (j + 1) dialogueLines sceneLines"
        using True by (subst collectDialogue.simps) (simp add: nextLine_def Let_def)
      show ?thesis
      proof (cases "k = j")
        case True
        with blank \<open>j < length allLines\<close> show ?thesis
          by (simp add: nextLine_def isSceneHeading_Nil)
      next
        case False
        with "1.prems"(1) have "j + 1 \<le> k" by simp
        moreover from "1.prems"(2) have
          "k < fst (collectDialogue allLines (j + 1) dialogueLines sceneLines)"
          by (simp only: eq)
        ultimately show ?thesis
          using "1.IH"(1) [OF True nextLine_def blank] by blast
      qed
    next
      case stop
      then have "collectDialogue allLines j dialogueLines sceneLines =
          (j, dialogueLines, sceneLines)"
        using True by (subst collectDialogue.simps) (simp add: nextLine_def Let_def)
      with "1.prems" show ?thesis by simp
    next
      case paren
      then have eq: "collectDialogue allLines j dialogueLines sceneLines =
          collectDialogue allLines (j + 1) dialogueLines (sceneLines @ [nextLine])"
        using True by (subst collectDialogue.simps) (simp add: nextLine_def Let_def)
      show ?thesis
      proof (cases "k = j")
        case True
        with paren(2) \<open>j < length allLines\<close> show ?thesis by (simp add: nextLine_def)
      next
        case False
        with "1.prems"(1) have "j + 1 \<le> k" by simp
        moreover from "1.prems"(2) have
          "k < fst (collectDialogue allLines (j + 1) dialogueLines (sceneLines @ [nextLine]))"
          by (simp only: eq)
        ultimately show ?thesis
          using "1.IH"(2) [OF True nextLine_def paren(1,2,3)] by blast
      qed
    next
      case act
      then have "collectDialogue allLines j dialogueLines sceneLines =
          (j, dialogueLines, sceneLines)"
        using True by (subst collectDialogue.simps) (simp add: nextLine_def Let_def)
      with "1.prems" show ?thesis by simp
    next
      case dia
      then have eq: "collectDialogue allLines j dialogueLines sceneLines =
          collectDialogue allLines (j + 1) (dialogueLines @ [nextLine])
            (sceneLines @ [nextLine])"
        using True by (subst collectDialogue.simps) (simp add: nextLine_def Let_def)
      show ?thesis
      proof (cases "k = j")
        case True
        with dia(2) \<open>j < length allLines\<close> show ?thesis by (simp add: nextLine_def)
      next
        case False
        with "1.prems"(1) have "j + 1 \<le> k" by simp
        moreover from "1.prems"(2) have
          "k < fst (collectDialogue allLines (j + 1) (dialogueLines @ [nextLine])
                 (sceneLines @ [nextLine]))"
          by (simp only: eq)
        ultimately show ?thesis
          using "1.IH"(3) [OF True nextLine_def dia(1,2,3,4)] by blast
      qed
    qed
  qed
qed

lemma filter_drop_skip:
  "i \<le> j \<Longrightarrow> \<forall>k. i \<le> k \<and> k < j \<longrightarrow> k < length xs \<and> \<not> P (xs ! k) \<Longrightarrow>
   filter P (drop i xs) = filter P (drop j xs)"
proof (induction j)
  case 0
  then show ?case by simp
next
  case (Suc j)
  show ?case
  proof (cases "i = Suc j")
    case True
    then show ?thesis by simp
  next
    case False
    with Suc.prems(1) have ij: "i \<le> j" by simp
    from Suc.prems(2) ij have j: "j < length xs" "\<not> P (xs ! j)" by auto
    from Suc.prems(2) have "\<forall>k. i \<le> k \<and> k < j \<longrightarrow> k < length xs \<and> \<not> P (xs ! k)" by auto
    with ij have "filter P (drop i xs) = filter P (drop j xs)" by (rule Suc.IH)
    also have "drop j xs = xs ! j # drop (Suc j) xs"
      using j(1) by (simp add: Cons_nth_drop_Suc)
    finally show ?thesis using j(2) by simp
  qed
qed

lemma headings_loopBody:
  assumes trimmed: "\<forall>l\<in>set allLines. trim (l_text l) = l_text l"
    and i: "i < length allLines"
  shows "map heading (pushCurrent (snd (loopBody allLines i st))) @
           filter opensScene (drop (fst (loopBody allLines i st)) (map l_text allLines)) =
         map heading (pushCurrent st) @ filter opensScene (drop i (map l_text allLines))"
proof -
  define line where "line = l_text (allLines ! i)"
  define r where "r = collectDialogue (map l_text allLines) (i + 1) []
      (sceneLines st @ [line])"
  have dr: "drop i (map l_text allLines) = line # drop (Suc i) (map l_text allLines)"
    using i by (simp add: line_def Cons_nth_drop_Suc [symmetric])
  consider (a) "isPageNumber line \<or> isPageFooter line"
    | (b) "\<not> (isPageNumber line \<or> isPageFooter line)" "isSceneHeading line"
    | (c) "\<not> (isPageNumber line \<or> isPageFooter line)" "\<not> isSceneHeading line"
        "currentScene st = None"
    | (d) cs where "\<not> (isPageNumber line \<or> isPageFooter line)" "\<not> isSceneHeading line"
        "currentScene st = Some cs" "isCharacterName line (map l_text allLines) i"
    | (e) cs where "\<not> (isPageNumber line \<or> isPageFooter line)" "\<not> isSceneHeading line"
        "currentScene st = Some cs" "\<not> isCharacterName line (map l_text allLines) i"
    by (cases "currentScene st") auto
  then show ?thesis
  proof cases
    case a
    then have "loopBody allLines i st = (i + 1, st)"
      by (simp add: loopBody_def line_def Let_def)
    moreover from a have "\<not> opensScene line" by (auto simp: opensScene_def)
    ultimately show ?thesis by (simp add: dr)
  next
    case b
    then have "loopBody allLines i st =
       (i + 1,
        \<lparr>scenes = pushCurrent st,
         currentScene = Some (openScene (pushCurrent st) (allLines ! i)),
         currentCharacter = None, sceneLines = [line]\<rparr>)"
      by (simp add: loopBody_def line_def Let_def)
    moreover from b have "opensScene line" by (simp add: opensScene_def)
    ultimately show ?thesis by (simp add: dr pushCurrent_def line_def)
  next
    case c
    then have "loopBody allLines i st = (i + 1, st)"
      by (simp add: loopBody_def line_def Let_def)
    moreover from c have "\<not> opensScene line" by (simp add: opensScene_def)
    ultimately show ?thesis by (simp add: dr)
  next
    case (d cs)
    then have lb: "loopBody allLines i st =
       (fst r,
        st\<lparr>currentScene := Some (cueScene cs (cleanCharacterName line) (fst (snd r))),
           currentCharacter := Some (cleanCharacterName line),
           sceneLines := snd (snd r)\<rparr>)"
      by (simp add: loopBody_def line_def r_def cueScene_def Let_def)
    have ge: "Suc i \<le> fst r"
      using collectDialogue_ge [of "i + 1" "map l_text allLines" "[]" "sceneLines st @ [line]"]
      by (simp add: r_def)
    have skip: "\<forall>k. Suc i \<le> k \<and> k < fst r \<longrightarrow>
        k < length (map l_text allLines) \<and> \<not> opensScene (map l_text allLines ! k)"
    proof (intro allI impI)
      fix k assume k: "Suc i \<le> k \<and> k < fst r"
      then have k1: "i + 1 \<le> k"
        and k2: "k < fst (collectDialogue (map l_text allLines) (i + 1) []
                        (sceneLines st @ [line]))"
        by (simp_all add: r_def)
      note sk = collectDialogue_skips [OF k1 k2]
      from sk have len: "k < length allLines" by simp
      with sk have nh: "\<not> isSceneHeading (trim (l_text (allLines ! k)))" by simp
      from len trimmed have "trim (l_text (allLines ! k)) = l_text (allLines ! k)"
        by simp
      with len nh show "k < length (map l_text allLines) \<and>
          \<not> opensScene (map l_text allLines ! k)"
        by (simp add: opensScene_def)
    qed
    have "filter opensScene (drop (Suc i) (map l_text allLines)) =
        filter opensScene (drop (fst r) (map l_text allLines))"
      using ge skip by (rule filter_drop_skip)
    moreover from d have "\<not> opensScene line" by (simp add: opensScene_def)
    ultimately show ?thesis using d(3) by (simp add: lb dr pushCurrent_def)
  next
    case (e cs)
    then have "loopBody allLines i st =
       (i + 1,
        st\<lparr>currentScene :=
             Some (if \<not> isTransition line \<and> \<not> looksLikeCharacterName line
                   then cs\<lparr>actions := actions cs @ [line]\<rparr> else cs),
           sceneLines := sceneLines st @ [line]\<rparr>)"
      by (simp add: loopBody_def line_def Let_def)
    moreover from e have "\<not> opensScene line" by (simp add: opensScene_def)
    ultimately show ?thesis using e(3) by (simp add: dr pushCurrent_def)
  qed
qed

lemma headings_parseLoop_aux:
  "(\<forall>l\<in>set allLines. trim (l_text l) = l_text l) \<longrightarrow>
   map heading (pushCurrent (parseLoop allLines i st)) =
   map heading (pushCurrent st) @ filter opensScene (drop i (map l_text allLines))"
proof (induction allLines i st rule: parseLoop.induct)
  case (1 allLines i st)
  show ?case
  proof (cases "length allLines \<le> i")
    case True
    then show ?thesis by (simp add: parseLoop_done)
  next
    case False
    then have i: "i < length allLines" by simp
    show ?thesis
    proof
      assume trimmed: "\<forall>l\<in>set allLines. trim (l_text l) = l_text l"
      have "map heading (pushCurrent (parseLoop allLines i st)) =
          map heading (pushCurrent (parseLoop allLines (fst (loopBody allLines i st))
            (snd (loopBody allLines i st))))"
        by (simp only: parseLoop_step [OF i])
      also have "\<dots> = map heading (pushCurrent (snd (loopBody allLines i st))) @
          filter opensScene (drop (fst (loopBody allLines i st)) (map l_text allLines))"
        using "1.IH" [OF False] trimmed by blast
      also have "\<dots> = map heading (pushCurrent st) @
          filter opensScene (drop i (map l_text allLines))"
        using trimmed i by (rule headings_loopBody)
      finally show "map heading (pushCurrent (parseLoop allLines i st)) =
          map heading (pushCurrent st) @ filter opensScene (drop i (map l_text allLines))" .
    qed
  qed
qed

lemma trim_trim: "trim (trim s) = trim s"
  by (rule trim_idem)

lemma flattenPages_trimmed: "\<forall>l\<in>set (flattenPages pages). trim (l_text l) = l_text l"
  by (auto simp: flattenPages_def trim_trim)

lemma headings_pushedScenes:
  "map heading (pushedScenes pages) = filter opensScene (map l_text (flattenPages pages))"
  using headings_parseLoop_aux [of "flattenPages pages" 0
      "\<lparr>scenes = [], currentScene = None, currentCharacter = None, sceneLines = []\<rparr>"]
    flattenPages_trimmed [of pages]
  by (simp add: pushedScenes_def pushCurrent_def)

text \<open>The final pass over the scenes changes \<open>charactersInScene\<close> and no other field.\<close>

lemma parseScenes_fields:
  "map sceneNumber (parseScenes pages) = map sceneNumber (pushedScenes pages)"
  "map heading (parseScenes pages) = map heading (pushedScenes pages)"
  "map dialogue (parseScenes pages) = map dialogue (pushedScenes pages)"
  "map actions (parseScenes pages) = map actions (pushedScenes pages)"
  "map actors (parseScenes pages) = map actors (pushedScenes pages)"
  "map fullText (parseScenes pages) = map fullText (pushedScenes pages)"
  "length (parseScenes pages) = length (pushedScenes pages)"
  by (simp_all add: parseScenes_def comp_def)

lemma parseScenes_other_fields:
  "map (\<lambda>s. s\<lparr>charactersInScene := c\<rparr>) (parseScenes pages) =
   map (\<lambda>s. s\<lparr>charactersInScene := c\<rparr>) (pushedScenes pages)"
  by (simp add: parseScenes_def comp_def)

lemma parseScenes_charactersInScene:
  "map charactersInScene (parseScenes pages) =
   map (\<lambda>s. JSArray (elements (charactersInScene s))) (pushedScenes pages)"
  by (simp add: parseScenes_def comp_def)

text \<open>While the loop runs, and when a scene is pushed, \<open>charactersInScene\<close> is a Set.\<close>

fun isSet :: "'a collection \<Rightarrow> bool" where
  "isSet (JSSet xs) = True"
| "isSet (JSArray xs) = False"

definition holdsSets :: "ParseState \<Rightarrow> bool" where
  "holdsSets st =
     (list_all (\<lambda>s. isSet (charactersInScene s)) (scenes st) \<and>
      (case currentScene st of None \<Rightarrow> True | Some cs \<Rightarrow> isSet (charactersInScene cs)))"

lemma isSet_add: "isSet c \<Longrightarrow> isSet (add c x)"
  by (cases c) simp_all

lemma holdsSets_pushCurrent:
  "holdsSets st \<Longrightarrow> list_all (\<lambda>s. isSet (charactersInScene s)) (pushCurrent st)"
  by (cases "currentScene st") (simp_all add: holdsSets_def pushCurrent_def sealScene_def)

lemma holdsSets_loopBody: "holdsSets st \<Longrightarrow> holdsSets (snd (loopBody allLines i st))"
proof (cases rule: loopBody_cases [of allLines i st])
  case same
  assume "holdsSets st"
  with same show ?thesis by simp
next
  case heading
  assume "holdsSets st"
  then have "list_all (\<lambda>s. isSet (charactersInScene s)) (pushCurrent st)"
    by (rule holdsSets_pushCurrent)
  with heading(4) show ?thesis by (simp add: holdsSets_def openScene_def Let_def)
next
  case (cue cs)
  assume "holdsSets st"
  with cue(3,5) show ?thesis by (simp add: holdsSets_def cueScene_def isSet_add)
next
  case (action cs)
  assume "holdsSets st"
  with action(3,4) show ?thesis by (simp add: holdsSets_def)
qed

lemma pushedScenes_sets: "list_all (\<lambda>s. isSet (charactersInScene s)) (pushedScenes pages)"
proof -
  have "holdsSets \<lparr>scenes = [], currentScene = None, currentCharacter = None,
      sceneLines = []\<rparr>"
    by (simp add: holdsSets_def)
  then have "holdsSets (parseLoop (flattenPages pages) 0
      \<lparr>scenes = [], currentScene = None, currentCharacter = None, sceneLines = []\<rparr>)"
    by (rule parseLoop_invariant) (rule holdsSets_loopBody)
  then show ?thesis unfolding pushedScenes_def by (rule holdsSets_pushCurrent)
qed

text \<open>The headings of the document parser.\<close>

lemma doc_headings_lineStep:
  "map doc_heading (doc_pushCurrent (doc_lineStep pageNo lines0 st x)) =
   map doc_heading (doc_pushCurrent st) @
     (if opensScene (trim (snd x)) then [trim (snd x)] else [])"
  by (cases "ds_currentScene st")
    (auto simp: doc_lineStep_def Let_def doc_pushCurrent_def doc_sealScene_def opensScene_def
      isSceneHeading_Nil)

lemma doc_headings_lines:
  "map doc_heading (doc_pushCurrent (foldl (doc_lineStep pageNo lines0) st xs)) =
   map doc_heading (doc_pushCurrent st) @ filter opensScene (map (\<lambda>x. trim (snd x)) xs)"
proof (induction xs arbitrary: st)
  case Nil
  show ?case by simp
next
  case (Cons x xs)
  show ?case by (simp add: Cons.IH doc_headings_lineStep)
qed

lemma doc_headings_pageStep:
  "map doc_heading (doc_pushCurrent (doc_pageStep st page0)) =
   map doc_heading (doc_pushCurrent st) @
     filter opensScene (map trim (splitOn 10 (tp_rawText page0)))"
proof -
  have "map (\<lambda>x. trim (snd x)) (enumerate n xs) = map trim xs"
    for n and xs :: "jsstring list"
    by (induction xs arbitrary: n) simp_all
  then show ?thesis by (simp add: doc_pageStep_def Let_def doc_headings_lines)
qed

lemma doc_headings_pages:
  "map doc_heading (doc_pushCurrent (foldl doc_pageStep st textPages)) =
   map doc_heading (doc_pushCurrent st) @
     filter opensScene (concat (map (\<lambda>p. map trim (splitOn 10 (tp_rawText p))) textPages))"
proof (induction textPages arbitrary: st)
  case Nil
  show ?case by simp
next
  case (Cons p ps)
  show ?case by (simp add: Cons.IH doc_headings_pageStep)
qed

lemma headings_analyzeScenes:
  "map doc_heading (analyzeScenes textPages) =
   filter opensScene (concat (map (\<lambda>p. map trim (splitOn 10 (tp_rawText p))) textPages))"
  unfolding analyzeScenes_def doc_headings_pages by (simp add: doc_pushCurrent_def)

subsection \<open>Page numbers and page footers never reach a scene\<close>

lemma splitOn_nonempty: "splitOn c s \<noteq> []"
  by (induction s) (auto split: list.split)

lemma splitOn_no_sep: "l \<in> set (splitOn c s) \<Longrightarrow> c \<notin> set l"
proof (induction s arbitrary: l)
  case Nil
  then show ?case by simp
next
  case (Cons x xs)
  show ?case
  proof (cases "x = c")
    case True
    with Cons show ?thesis by auto
  next
    case False
    obtain y ys where s: "splitOn c xs = y # ys"
      using splitOn_nonempty [of c xs] by (cases "splitOn c xs") auto
    with Cons.prems False have "l = x # y \<or> l \<in> set ys" by simp
    moreover have "c \<notin> set y" using Cons.IH [of y] s by simp
    moreover have "l \<in> set ys \<Longrightarrow> c \<notin> set l" using Cons.IH [of l] s by simp
    ultimately show ?thesis using False by auto
  qed
qed

lemma splitOn_plain: "c \<notin> set s \<Longrightarrow> splitOn c s = [s]"
  by (induction s) auto

lemma splitOn_append_sep:
  "c \<notin> set x \<Longrightarrow> splitOn c (x @ c # rest) = x # splitOn c rest"
  by (induction x) auto

lemma splitOn_join:
  "ls \<noteq> [] \<Longrightarrow> \<forall>l\<in>set ls. c \<notin> set l \<Longrightarrow> splitOn c (join [c] ls) = ls"
proof (induction "[c]" ls rule: join.induct)
  case 1
  then show ?case by simp
next
  case (2 x)
  then show ?case by (simp add: splitOn_plain)
next
  case (3 x y ys)
  then show ?case by (simp add: splitOn_append_sep)
qed

lemma set_trim: "set (trim s) \<subseteq> set s"
  using set_mono_sublist [OF sublist_trim] .

definition goodLine :: "jsstring \<Rightarrow> bool" where
  "goodLine l = (l \<noteq> [] \<and> \<not> isPageNumber l \<and> \<not> isPageFooter l \<and> 10 \<notin> set l)"

lemma collectDialogue_good:
  assumes "\<forall>l\<in>set allLines. 10 \<notin> set l"
  shows "(\<forall>l\<in>set dl. goodLine l) \<Longrightarrow> (\<forall>l\<in>set sl. goodLine l) \<Longrightarrow>
         (\<forall>l\<in>set (fst (snd (collectDialogue allLines j dl sl))). goodLine l) \<and>
         (\<forall>l\<in>set (snd (snd (collectDialogue allLines j dl sl))). goodLine l)"
  using assms
proof (induction allLines j dl sl rule: collectDialogue.induct)
  case (1 allLines j dialogueLines sceneLines)
  show ?case
  proof (cases "j < length allLines")
    case False
    with "1.prems" show ?thesis by (subst (1 2) collectDialogue.simps) simp
  next
    case True
    define nextLine where "nextLine = trim (allLines ! j)"
    have nl: "10 \<notin> set nextLine"
      using True "1.prems"(3) set_trim [of "allLines ! j"] unfolding nextLine_def
      by (meson nth_mem subsetD)
    consider (blank) "nextLine = []"
      | (stop) "nextLine \<noteq> []"
          "isCharacterName nextLine allLines j \<or> isSceneHeading nextLine \<or>
           isTransition nextLine \<or> isPageNumber nextLine \<or> isPageFooter nextLine"
      | (paren) "nextLine \<noteq> []"
          "\<not> (isCharacterName nextLine allLines j \<or> isSceneHeading nextLine \<or>
           isTransition nextLine \<or> isPageNumber nextLine \<or> isPageFooter nextLine)"
          "isParenthetical nextLine"
      | (act) "nextLine \<noteq> []"
          "\<not> (isCharacterName nextLine allLines j \<or> isSceneHeading nextLine \<or>
           isTransition nextLine \<or> isPageNumber nextLine \<or> isPageFooter nextLine)"
          "\<not> isParenthetical nextLine" "isLikelyActionLine nextLine"
      | (dia) "nextLine \<noteq> []"
          "\<not> (isCharacterName nextLine allLines j \<or> isSceneHeading nextLine \<or>
           isTransition nextLine \<or> isPageNumber nextLine \<or> isPageFooter nextLine)"
          "\<not> isParenthetical nextLine" "\<not> isLikelyActionLine nextLine"
      by blast
    then show ?thesis
    proof cases
      case blank
      then have eq: "collectDialogue allLines j dialogueLines sceneLines =
          collectDialogue allLines (j + 1) dialogueLines sceneLines"
        using True by (subst collectDialogue.simps) (simp add: nextLine_def Let_def)
      show ?thesis
        unfolding eq
        using "1.IH"(1) [OF True nextLine_def blank "1.prems"] .
    next
      case stop
      then have eq: "collectDialogue allLines j dialogueLines sceneLines =
          (j, dialogueLines, sceneLines)"
        using True by (subst collectDialogue.simps) (simp add: nextLine_def Let_def)
      show ?thesis unfolding eq using "1.prems" by simp
    next
      case paren
      then have eq: "collectDialogue allLines j dialogueLines sceneLines =
          collectDialogue allLines (j + 1) dialogueLines (sceneLines @ [nextLine])"
        using True by (subst collectDialogue.simps) (simp add: nextLine_def Let_def)
      have g: "goodLine nextLine" using paren nl by (simp add: goodLine_def)
      with "1.prems"(2) have sl: "\<forall>l\<in>set (sceneLines @ [nextLine]). goodLine l" by simp
      show ?thesis
        unfolding eq
        using "1.IH"(2) [OF True nextLine_def paren(1,2,3) "1.prems"(1) sl "1.prems"(3)] .
    next
      case act
      then have eq: "collectDialogue allLines j dialogueLines sceneLines =
          (j, dialogueLines, sceneLines)"
        using True by (subst collectDialogue.simps) (simp add: nextLine_def Let_def)
      show ?thesis unfolding eq using "1.prems" by simp
    next
      case dia
      then have eq: "collectDialogue allLines j dialogueLines sceneLines =
          collectDialogue allLines (j + 1) (dialogueLines @ [nextLine])
            (sceneLines @ [nextLine])"
        using True by (subst collectDialogue.simps) (simp add: nextLine_def Let_def)
      have g: "goodLine nextLine" using dia nl by (simp add: goodLine_def)
      with "1.prems" have dl: "\<forall>l\<in>set (dialogueLines @ [nextLine]). goodLine l"
        and sl: "\<forall>l\<in>set (sceneLines @ [nextLine]). goodLine l" by simp_all
      show ?thesis
        unfolding eq
        using "1.IH"(3) [OF True nextLine_def dia(1,2,3,4) dl sl "1.prems"(3)] .
    qed
  qed
qed

definition sceneTidy :: "'a OpenScene_scheme \<Rightarrow> bool" where
  "sceneTidy s =
     ((\<forall>a\<in>set (actions s). goodLine a) \<and>
      (\<forall>d\<in>set (dialogue s).
         \<exists>ls. ls \<noteq> [] \<and> (\<forall>l\<in>set ls. goodLine l) \<and> dtext d = join [32] ls))"

definition tidy :: "ParseState \<Rightarrow> bool" where
  "tidy st =
     ((\<forall>l\<in>set (sceneLines st). goodLine l) \<and>
      (\<forall>cs. currentScene st = Some cs \<longrightarrow> sceneTidy cs) \<and>
      (\<forall>s\<in>set (scenes st).
         sceneTidy s \<and>
         (\<forall>l\<in>set (splitOn 10 (fullText s)). \<not> isPageNumber l \<and> \<not> isPageFooter l)))"

lemma empty_line_no_page: "\<not> isPageNumber [] \<and> \<not> isPageFooter []"
  by (simp add: ev)

lemma fullText_lines:
  assumes "\<forall>l\<in>set sl. goodLine l"
  shows "\<forall>l\<in>set (splitOn 10 (join [10] sl)). \<not> isPageNumber l \<and> \<not> isPageFooter l"
proof (cases "sl = []")
  case True
  then show ?thesis using empty_line_no_page by simp
next
  case False
  moreover have "\<forall>l\<in>set sl. 10 \<notin> set l" using assms by (simp add: goodLine_def)
  ultimately have "splitOn 10 (join [10] sl) = sl" by (rule splitOn_join)
  with assms show ?thesis by (simp add: goodLine_def)
qed

lemma tidy_pushCurrent:
  assumes "tidy st"
  shows "\<forall>s\<in>set (pushCurrent st).
           sceneTidy s \<and>
           (\<forall>l\<in>set (splitOn 10 (fullText s)). \<not> isPageNumber l \<and> \<not> isPageFooter l)"
proof (cases "currentScene st")
  case None
  with assms show ?thesis by (simp add: pushCurrent_def tidy_def)
next
  case (Some cs)
  from assms Some have "sceneTidy cs" by (simp add: tidy_def)
  then have 1: "sceneTidy (sealScene cs (sceneLines st))" by (simp add: sceneTidy_def)
  from assms have "\<forall>l\<in>set (sceneLines st). goodLine l" by (simp add: tidy_def)
  then have 2: "\<forall>l\<in>set (splitOn 10 (fullText (sealScene cs (sceneLines st)))).
      \<not> isPageNumber l \<and> \<not> isPageFooter l"
    using fullText_lines by simp
  from assms have "\<forall>s\<in>set (scenes st). sceneTidy s \<and>
      (\<forall>l\<in>set (splitOn 10 (fullText s)). \<not> isPageNumber l \<and> \<not> isPageFooter l)"
    by (simp add: tidy_def)
  with 1 2 Some show ?thesis by (simp add: pushCurrent_def)
qed

lemma tidy_loopBody:
  assumes lines: "\<forall>lo\<in>set allLines. l_text lo \<noteq> [] \<and> 10 \<notin> set (l_text lo)"
    and i: "i < length allLines"
    and t: "tidy st"
  shows "tidy (snd (loopBody allLines i st))"
proof (cases rule: loopBody_cases [of allLines i st])
  case same
  with t show ?thesis by simp
next
  case heading
  from lines i have "l_text (allLines ! i) \<noteq> [] \<and> 10 \<notin> set (l_text (allLines ! i))"
    by simp
  with heading(1,2) have g: "goodLine (l_text (allLines ! i))" by (simp add: goodLine_def)
  have "sceneTidy (openScene (pushCurrent st) (allLines ! i))" by (simp add: sceneTidy_def)
  with g tidy_pushCurrent [OF t] heading(4) show ?thesis by (simp add: tidy_def)
next
  case (cue cs)
  define r where "r = collectDialogue (map l_text allLines) (i + 1) []
      (sceneLines st @ [l_text (allLines ! i)])"
  from lines i have "l_text (allLines ! i) \<noteq> [] \<and> 10 \<notin> set (l_text (allLines ! i))"
    by simp
  with cue(1,2) have g: "goodLine (l_text (allLines ! i))" by (simp add: goodLine_def)
  with t have sl: "\<forall>l\<in>set (sceneLines st @ [l_text (allLines ! i)]). goodLine l"
    by (simp add: tidy_def)
  have "\<forall>l\<in>set (map l_text allLines). 10 \<notin> set l" using lines by simp
  then have good: "(\<forall>l\<in>set (fst (snd r)). goodLine l) \<and> (\<forall>l\<in>set (snd (snd r)). goodLine l)"
    unfolding r_def by (intro collectDialogue_good) (use sl in simp_all)
  from t cue(3) have "sceneTidy cs" by (simp add: tidy_def)
  with good have "sceneTidy (cueScene cs (cleanCharacterName (l_text (allLines ! i)))
      (fst (snd r)))"
    by (auto simp: sceneTidy_def)
  with good t cue(5) show ?thesis by (simp add: tidy_def r_def)
next
  case (action cs)
  from lines i have "l_text (allLines ! i) \<noteq> [] \<and> 10 \<notin> set (l_text (allLines ! i))"
    by simp
  with action(1,2) have g: "goodLine (l_text (allLines ! i))" by (simp add: goodLine_def)
  from t action(3) have "sceneTidy cs" by (simp add: tidy_def)
  with g have "sceneTidy (if \<not> isTransition (l_text (allLines ! i)) \<and>
      \<not> looksLikeCharacterName (l_text (allLines ! i))
      then cs\<lparr>actions := actions cs @ [l_text (allLines ! i)]\<rparr> else cs)"
    by (simp add: sceneTidy_def)
  with g t action(4) show ?thesis by (simp add: tidy_def)
qed

lemma flattenPages_lines:
  "\<forall>lo\<in>set (flattenPages pages). l_text lo \<noteq> [] \<and> 10 \<notin> set (l_text lo)"
  using splitOn_no_sep set_trim by (fastforce simp: flattenPages_def)

lemma tidy_pushedScenes:
  "\<forall>s\<in>set (pushedScenes pages).
     sceneTidy s \<and>
     (\<forall>l\<in>set (splitOn 10 (fullText s)). \<not> isPageNumber l \<and> \<not> isPageFooter l)"
proof -
  have "tidy \<lparr>scenes = [], currentScene = None, currentCharacter = None, sceneLines = []\<rparr>"
    by (simp add: tidy_def)
  then have "tidy (parseLoop (flattenPages pages) 0
      \<lparr>scenes = [], currentScene = None, currentCharacter = None, sceneLines = []\<rparr>)"
    by (rule parseLoop_invariant) (rule tidy_loopBody [OF flattenPages_lines])
  then show ?thesis unfolding pushedScenes_def by (rule tidy_pushCurrent)
qed

lemma tidy_parseScenes:
  "\<forall>s\<in>set (parseScenes pages).
     sceneTidy s \<and>
     (\<forall>l\<in>set (splitOn 10 (fullText s)). \<not> isPageNumber l \<and> \<not> isPageFooter l)"
  using tidy_pushedScenes [of pages] by (auto simp: parseScenes_def sceneTidy_def)

lemma f_text_analyzePageLines:
  "map f_text (analyzePageLines pageText) =
   filter (\<lambda>l. l \<noteq> [] \<and> \<not> isPageNumber l \<and> \<not> isPageFooter l)
     (map trim (splitOn 10 pageText))"
proof -
  have "map (\<lambda>x. f_text (case x of (index, line) \<Rightarrow>
          \<lparr>f_index = index, f_type = g line index, f_text = line\<rparr>)) (enumerate n xs) = xs"
    for g :: "jsstring \<Rightarrow> nat \<Rightarrow> LineType" and n and xs :: "jsstring list"
    by (induction xs arbitrary: n) simp_all
  then show ?thesis by (simp add: analyzePageLines_def Let_def comp_def)
qed

lemma analyzePageLines_filtered:
  "\<forall>f\<in>set (analyzePageLines pageText). \<not> isPageNumber (f_text f) \<and> \<not> isPageFooter (f_text f)"
proof
  fix f assume "f \<in> set (analyzePageLines pageText)"
  then have "f_text f \<in> set (map f_text (analyzePageLines pageText))" by simp
  then show "\<not> isPageNumber (f_text f) \<and> \<not> isPageFooter (f_text f)"
    unfolding f_text_analyzePageLines by simp
qed

text \<open>
  How far the hybrid parser drops the lines that are page numbers or page footers.
  \<open>analyzePageLines\<close> filters them out before it classifies any line. In
  \<open>parseScenes\<close> the main loop leaves the state as it is at such a line, the dialogue
  loop stops at one, and in every scene returned no line of \<open>fullText\<close> and no
  action is one.
\<close>

lemma loopBody_page_number:
  "isPageNumber (l_text (allLines ! i)) \<or> isPageFooter (l_text (allLines ! i)) \<Longrightarrow>
   loopBody allLines i st = (i + 1, st)"
  by (simp add: loopBody_def Let_def)

lemma collectDialogue_page_number:
  "j < length allLines \<Longrightarrow> trim (allLines ! j) \<noteq> [] \<Longrightarrow>
   isPageNumber (trim (allLines ! j)) \<or> isPageFooter (trim (allLines ! j)) \<Longrightarrow>
   collectDialogue allLines j dl sl = (j, dl, sl)"
  by (subst collectDialogue.simps) (auto simp: Let_def)

lemma page_numbers_never_in_scene:
  "(\<forall>f\<in>set (analyzePageLines pageText).
      \<not> isPageNumber (f_text f) \<and> \<not> isPageFooter (f_text f)) \<and>
   (\<forall>s\<in>set (parseScenes pages).
      (\<forall>l\<in>set (splitOn 10 (fullText s)). \<not> isPageNumber l \<and> \<not> isPageFooter l) \<and>
      (\<forall>a\<in>set (actions s). \<not> isPageNumber a \<and> \<not> isPageFooter a))"
proof (intro conjI ballI)
  fix f assume "f \<in> set (analyzePageLines pageText)"
  then show "\<not> isPageNumber (f_text f)" "\<not> isPageFooter (f_text f)"
    using analyzePageLines_filtered by blast+
next
  fix s assume s: "s \<in> set (parseScenes pages)"
  then have tidy: "sceneTidy s"
    and full: "\<forall>l\<in>set (splitOn 10 (fullText s)). \<not> isPageNumber l \<and> \<not> isPageFooter l"
    using tidy_parseScenes by blast+
  { fix l assume "l \<in> set (splitOn 10 (fullText s))"
    with full show "\<not> isPageNumber l" "\<not> isPageFooter l" by blast+ }
  { fix a assume "a \<in> set (actions s)"
    with tidy show "\<not> isPageNumber a" "\<not> isPageFooter a"
      by (auto simp: sceneTidy_def goodLine_def) }
qed

section \<open>A small script, evaluated\<close>

text \<open>
  A page with a heading, a page footer, a cue, one line of dialogue, a page number and an
  action line. The predicates are evaluated on its lines once; the loop is then run on
  the lines by name.
\<close>

definition w_heading :: jsstring where "w_heading = js ''INT ABC''"
definition w_footer :: jsstring where "w_footer = js ''- 3 of 10 -''"
definition w_cue :: jsstring where "w_cue = js ''JO''"
definition w_dia :: jsstring where "w_dia = js ''hi''"
definition w_number :: jsstring where "w_number = js ''4''"
definition w_act :: jsstring where "w_act = js ''go''"

abbreviation w_texts :: "jsstring list" where
  "w_texts \<equiv> [w_heading, w_footer, w_cue, w_dia, w_number, w_act]"

definition w_page :: Page where
  "w_page = \<lparr>pageNumber = 1, rawText = join [10] w_texts, formatted = []\<rparr>"

lemmas w_defs = w_heading_def w_footer_def w_cue_def w_dia_def w_number_def w_act_def

lemma w_flatten:
  "flattenPages [w_page] = map (\<lambda>l. \<lparr>l_text = l, l_pageNumber = 1\<rparr>) w_texts"
  by (simp add: flattenPages_def w_page_def w_defs trim_def isWhiteSpace_def)

lemma w_trim:
  "trim w_heading = w_heading" "trim w_footer = w_footer" "trim w_cue = w_cue"
  "trim w_dia = w_dia" "trim w_number = w_number" "trim w_act = w_act"
  by (simp_all add: w_defs trim_def isWhiteSpace_def)

lemma w_nonempty:
  "w_heading \<noteq> []" "w_footer \<noteq> []" "w_cue \<noteq> []" "w_dia \<noteq> []" "w_number \<noteq> []"
  "w_act \<noteq> []"
  by (simp_all add: w_defs)

lemma w_isPageNumber:
  "\<not> isPageNumber w_heading" "\<not> isPageNumber w_footer" "\<not> isPageNumber w_cue"
  "\<not> isPageNumber w_dia" "isPageNumber w_number" "\<not> isPageNumber w_act"
  by (simp_all add: w_defs ev)

lemma w_isPageFooter:
  "\<not> isPageFooter w_heading" "isPageFooter w_footer" "\<not> isPageFooter w_cue"
  "\<not> isPageFooter w_dia" "\<not> isPageFooter w_number" "\<not> isPageFooter w_act"
  by (simp_all add: w_defs ev)

lemma w_isSceneHeading:
  "isSceneHeading w_heading" "\<not> isSceneHeading w_footer" "\<not> isSceneHeading w_cue"
  "\<not> isSceneHeading w_dia" "\<not> isSceneHeading w_number" "\<not> isSceneHeading w_act"
  by (simp_all add: w_defs ev)

lemma w_isTransition:
  "\<not> isTransition w_cue" "\<not> isTransition w_dia" "\<not> isTransition w_number"
  "\<not> isTransition w_act"
  by (simp_all add: w_defs ev)

lemma w_looksLikeCharacterName:
  "looksLikeCharacterName w_cue" "\<not> looksLikeCharacterName w_dia"
  "\<not> looksLikeCharacterName w_act"
  by (simp_all add: w_defs ev)

lemma w_isCharacterName:
  "isCharacterName w_cue w_texts 2" "\<not> isCharacterName w_dia w_texts 3"
  "\<not> isCharacterName w_number w_texts 4" "\<not> isCharacterName w_act w_texts 5"
  by (simp_all add: isCharacterName_def Let_def w_trim w_isPageNumber w_isPageFooter
      w_isSceneHeading w_isTransition w_looksLikeCharacterName)
    (simp_all add: w_defs ev)

lemma w_isParenthetical: "\<not> isParenthetical w_dia"
  by (simp add: w_defs ev)

lemma w_isLikelyActionLine: "\<not> isLikelyActionLine w_dia"
  by (simp add: isLikelyActionLine_def Let_def w_trim w_looksLikeCharacterName)
    (simp add: w_defs ev)

lemma w_cleanCharacterName: "cleanCharacterName w_cue = w_cue"
  by (simp add: w_defs ev)

lemmas w_facts =
  w_trim w_nonempty w_isPageNumber w_isPageFooter w_isSceneHeading w_isTransition
  w_looksLikeCharacterName w_isCharacterName w_isParenthetical w_isLikelyActionLine
  w_cleanCharacterName

lemma w_collectDialogue:
  "collectDialogue w_texts 3 [] [w_heading, w_cue] = (4, [w_dia], [w_heading, w_cue, w_dia])"
  by (simp add: collectDialogue.simps Let_def w_facts)


abbreviation w_lines :: "LineObj list" where
  "w_lines \<equiv> map (\<lambda>l. \<lparr>l_text = l, l_pageNumber = 1\<rparr>) w_texts"

definition w_scene :: "jsstring list \<Rightarrow> Dialogue list \<Rightarrow> jsstring list \<Rightarrow> OpenScene" where
  "w_scene names ds as =
     \<lparr>sceneNumber = 1, scenePageNumber = 1, heading = w_heading,
      location = sd_location (parseSceneHeading w_heading),
      intExt = sd_intExt (parseSceneHeading w_heading),
      timeOfDay = sd_time (parseSceneHeading w_heading),
      dialogue = ds, actions = as, actors = names, charactersInScene = JSSet names\<rparr>"

definition w_state :: "OpenScene \<Rightarrow> jsstring option \<Rightarrow> jsstring list \<Rightarrow> ParseState" where
  "w_state cs c sl = \<lparr>scenes = [], currentScene = Some cs, currentCharacter = c, sceneLines = sl\<rparr>"

lemma w_step0:
  "loopBody w_lines 0
     \<lparr>scenes = [], currentScene = None, currentCharacter = None, sceneLines = []\<rparr> =
   (1, w_state (w_scene [] [] []) None [w_heading])"
  by (simp add: loopBody_def Let_def w_facts pushCurrent_def openScene_def w_scene_def
      w_state_def)

lemma w_step1:
  "loopBody w_lines 1 (w_state (w_scene [] [] []) None [w_heading]) =
   (2, w_state (w_scene [] [] []) None [w_heading])"
  by (simp add: loopBody_def Let_def w_facts)

lemma w_step2:
  "loopBody w_lines 2 (w_state (w_scene [] [] []) None [w_heading]) =
   (4, w_state (w_scene [w_cue] [\<lparr>character = w_cue, dtext = w_dia\<rparr>] []) (Some w_cue)
         [w_heading, w_cue, w_dia])"
  by (simp add: loopBody_def Let_def w_facts w_collectDialogue w_scene_def w_state_def
      setAdd_def)

lemma w_step4:
  "loopBody w_lines 4 (w_state cs c sl) = (5, w_state cs c sl)"
  by (simp add: loopBody_def Let_def w_facts)

lemma w_step5:
  "loopBody w_lines 5
     (w_state (w_scene [w_cue] [\<lparr>character = w_cue, dtext = w_dia\<rparr>] []) (Some w_cue)
         [w_heading, w_cue, w_dia]) =
   (6, w_state (w_scene [w_cue] [\<lparr>character = w_cue, dtext = w_dia\<rparr>] [w_act]) (Some w_cue)
         [w_heading, w_cue, w_dia, w_act])"
  by (simp add: loopBody_def Let_def w_facts w_scene_def w_state_def)

lemma w_parseLoop:
  "parseLoop w_lines 0
     \<lparr>scenes = [], currentScene = None, currentCharacter = None, sceneLines = []\<rparr> =
   w_state (w_scene [w_cue] [\<lparr>character = w_cue, dtext = w_dia\<rparr>] [w_act]) (Some w_cue)
     [w_heading, w_cue, w_dia, w_act]"
proof -
  have len: "length w_lines = 6" by simp
  show ?thesis
    apply (subst parseLoop_step, simp, simp only: w_step0 fst_conv snd_conv)
    apply (subst parseLoop_step, simp, simp only: w_step1 fst_conv snd_conv)
    apply (subst parseLoop_step, simp, simp only: w_step2 fst_conv snd_conv)
    apply (subst parseLoop_step, simp, simp only: w_step4 fst_conv snd_conv)
    apply (subst parseLoop_step, simp, simp only: w_step5 fst_conv snd_conv)
    apply (subst parseLoop_done, simp)
    apply (rule refl)
    done
qed

lemma w_pushedScenes:
  "pushedScenes [w_page] =
   [sealScene (w_scene [w_cue] [\<lparr>character = w_cue, dtext = w_dia\<rparr>] [w_act])
      [w_heading, w_cue, w_dia, w_act]]"
  by (simp only: pushedScenes_def w_flatten w_parseLoop) (simp add: pushCurrent_def w_state_def)

lemma w_parseScenes:
  "parseScenes [w_page] =
   [(sealScene (w_scene [w_cue] [\<lparr>character = w_cue, dtext = w_dia\<rparr>] [w_act])
      [w_heading, w_cue, w_dia, w_act])\<lparr>charactersInScene := JSArray [w_cue]\<rparr>]"
  by (simp only: parseScenes_def w_pushedScenes) (simp add: sealScene_def w_scene_def)

subsection \<open>A page number between two names\<close>



























section \<open>Scene numbers, headings and sealing\<close>

text \<open>
  C3. The scenes returned by \<open>parseScenes\<close> of the hybrid parser and by
  \<open>analyzeScenes\<close> of the document parser carry the numbers 1, 2, ... in order, and
  their headings are, in order, the lines of the stream at which the loop opens a scene:
  the scene at index \<open>i\<close> has number \<open>i + 1\<close> and the heading that was met
  \<open>i + 1\<close>-th. A scene that has been pushed is not touched again by the loop: in
  every state of either loop, the scenes pushed so far are an initial segment of the
  scenes after the next step and of the scenes pushed when the loop has ended. The
  hybrid parser then makes one more pass over the pushed scenes: \<open>charactersInScene\<close>,
  a Set in every scene that was pushed, is replaced by the array of its elements, and no
  other field changes. The document parser returns the pushed scenes as they are.
\<close>

theorem scenes_numbered_in_heading_order:
  "map sceneNumber (parseScenes pages) = [1..<Suc (length (parseScenes pages))] \<and>
   map heading (parseScenes pages) = filter opensScene (map l_text (flattenPages pages)) \<and>
   prefix (scenes st) (scenes (snd (loopBody allLines i st))) \<and>
   prefix (scenes st) (pushCurrent (parseLoop allLines i st)) \<and>
   pushedScenes pages =
     pushCurrent (parseLoop (flattenPages pages) 0
       \<lparr>scenes = [], currentScene = None, currentCharacter = None, sceneLines = []\<rparr>) \<and>
   list_all (\<lambda>s. isSet (charactersInScene s)) (pushedScenes pages) \<and>
   map charactersInScene (parseScenes pages) =
     map (\<lambda>s. JSArray (elements (charactersInScene s))) (pushedScenes pages) \<and>
   map (\<lambda>s. s\<lparr>charactersInScene := c\<rparr>) (parseScenes pages) =
     map (\<lambda>s. s\<lparr>charactersInScene := c\<rparr>) (pushedScenes pages) \<and>
   map doc_sceneNumber (analyzeScenes textPages) =
     [1..<Suc (length (analyzeScenes textPages))] \<and>
   map doc_heading (analyzeScenes textPages) =
     filter opensScene (concat (map (\<lambda>p. map trim (splitOn 10 (tp_rawText p))) textPages)) \<and>
   prefix (ds_scenes dst) (ds_scenes (doc_lineStep pageNo lines0 dst x)) \<and>
   prefix (ds_scenes dst) (doc_pushCurrent (foldl doc_pageStep dst textPages)) \<and>
   analyzeScenes textPages =
     doc_pushCurrent (foldl doc_pageStep
       \<lparr>ds_scenes = [], ds_currentScene = None, ds_sceneLines = [], ds_sceneNumber = 1\<rparr>
       textPages)"
proof -
  have 1: "prefix (scenes st) (pushCurrent (parseLoop allLines i st))"
    using scenes_parseLoop prefix_pushCurrent by (rule prefix_order.order_trans)
  have 2: "prefix (ds_scenes dst) (doc_pushCurrent (foldl doc_pageStep dst textPages))"
    using scenes_doc_fold prefix_doc_pushCurrent by (rule prefix_order.order_trans)
  have 3: "map heading (parseScenes pages) =
      filter opensScene (map l_text (flattenPages pages))"
    by (simp only: parseScenes_fields(2) headings_pushedScenes)
  show ?thesis
    by (intro conjI sceneNumbers_parseScenes 3 scenes_loopBody 1 pushedScenes_def
        pushedScenes_sets parseScenes_charactersInScene parseScenes_other_fields
        sceneNumbers_analyzeScenes headings_analyzeScenes scenes_doc_lineStep 2
        analyzeScenes_def)
qed

text \<open>
  The claim as stated fails in the hybrid parser. In the script of the section above the
  scene is pushed at the end of the stream with the Set of \<open>JO\<close> in
  \<open>charactersInScene\<close>; the scene that is returned has an array there.
\<close>

theorem sealed_scene_rewritten_counterexample:
  "map charactersInScene (pushedScenes [w_page]) = [JSSet [w_cue]] \<and>
   map charactersInScene (parseScenes [w_page]) = [JSArray [w_cue]] \<and>
   parseScenes [w_page] \<noteq> pushedScenes [w_page]"
  by (simp add: w_parseScenes w_pushedScenes sealScene_def w_scene_def)

section \<open>A page number after a name\<close>



section \<open>The loops terminate\<close>

text \<open>
  The dialogue loop and the main loop of \<open>parseScenes\<close> once more, in the hybrid
  parser and in the PDF parser, this time as partial functions with no termination
  argument built in: the result is \<open>None\<close> if the loop runs forever. The lemmas
  below show that the result is never \<open>None\<close> and that it is the result of the
  functions used above.
\<close>

partial_function (option) collectDialogueP ::
  "jsstring list \<Rightarrow> nat \<Rightarrow> jsstring list \<Rightarrow> jsstring list \<Rightarrow>
   (nat \<times> jsstring list \<times> jsstring list) option"
where
  "collectDialogueP allLines j dls sls =
     (if j < length allLines then
        (if trim (allLines ! j) = []
           then collectDialogueP allLines (j + 1) dls sls
         else if isCharacterName (trim (allLines ! j)) allLines j \<or>
                 isSceneHeading (trim (allLines ! j)) \<or>
                 isTransition (trim (allLines ! j)) \<or> isPageNumber (trim (allLines ! j)) \<or>
                 isPageFooter (trim (allLines ! j))
           then Some (j, dls, sls)
         else if isParenthetical (trim (allLines ! j))
           then collectDialogueP allLines (j + 1) dls (sls @ [trim (allLines ! j)])
         else if isLikelyActionLine (trim (allLines ! j))
           then Some (j, dls, sls)
         else collectDialogueP allLines (j + 1) (dls @ [trim (allLines ! j)])
                (sls @ [trim (allLines ! j)]))
      else Some (j, dls, sls))"

partial_function (option) parseLoopP ::
  "LineObj list \<Rightarrow> nat \<Rightarrow> ParseState \<Rightarrow> ParseState option"
where
  "parseLoopP allLines i st =
     (if length allLines \<le> i then Some st
      else parseLoopP allLines (fst (loopBody allLines i st)) (snd (loopBody allLines i st)))"

partial_function (option) pdf_collectDialogueP ::
  "jsstring list \<Rightarrow> nat \<Rightarrow> jsstring list \<Rightarrow> jsstring list \<Rightarrow>
   (nat \<times> jsstring list \<times> jsstring list) option"
where
  "pdf_collectDialogueP lines0 j dls sls =
     (if j < length lines0 then
        (if trim (lines0 ! j) = []
           then pdf_collectDialogueP lines0 (j + 1) dls sls
         else if pdf_isCharacterName (trim (lines0 ! j)) lines0 j \<or>
                 pdf_isSceneHeading (trim (lines0 ! j)) \<or>
                 pdf_isPageNumber (trim (lines0 ! j)) \<or>
                 pdf_isPageFooter (trim (lines0 ! j)) \<or> pdf_isTransition (trim (lines0 ! j))
           then Some (j, dls, sls)
         else if isParenthetical (trim (lines0 ! j))
           then pdf_collectDialogueP lines0 (j + 1) dls (sls @ [trim (lines0 ! j)])
         else if pdf_isLikelyActionLine (trim (lines0 ! j))
           then Some (j, dls, sls)
         else pdf_collectDialogueP lines0 (j + 1) (dls @ [trim (lines0 ! j)])
                (sls @ [trim (lines0 ! j)]))
      else Some (j, dls, sls))"

partial_function (option) pdf_parseLoopP ::
  "jsstring list \<Rightarrow> nat \<Rightarrow> nat \<Rightarrow> PdfState \<Rightarrow> PdfState option"
where
  "pdf_parseLoopP lines0 totalPages0 i st =
     (if length lines0 \<le> i then Some st
      else pdf_parseLoopP lines0 totalPages0 (fst (pdf_loopBody lines0 totalPages0 i st))
             (snd (pdf_loopBody lines0 totalPages0 i st)))"

text \<open>
  The structural markers: the lines at which the dialogue loop stops before the end of
  the lines. A blank line is skipped, and a parenthetical is taken before the test of
  the shape of an action line is made.
\<close>

definition stopsAt :: "jsstring list \<Rightarrow> nat \<Rightarrow> bool" where
  "stopsAt allLines k =
     (trim (allLines ! k) \<noteq> [] \<and>
      (isCharacterName (trim (allLines ! k)) allLines k \<or>
       isSceneHeading (trim (allLines ! k)) \<or> isTransition (trim (allLines ! k)) \<or>
       isPageNumber (trim (allLines ! k)) \<or> isPageFooter (trim (allLines ! k)) \<or>
       isLikelyActionLine (trim (allLines ! k)) \<and> \<not> isParenthetical (trim (allLines ! k))))"

definition pdf_stopsAt :: "jsstring list \<Rightarrow> nat \<Rightarrow> bool" where
  "pdf_stopsAt lines0 k =
     (trim (lines0 ! k) \<noteq> [] \<and>
      (pdf_isCharacterName (trim (lines0 ! k)) lines0 k \<or>
       pdf_isSceneHeading (trim (lines0 ! k)) \<or> pdf_isPageNumber (trim (lines0 ! k)) \<or>
       pdf_isPageFooter (trim (lines0 ! k)) \<or> pdf_isTransition (trim (lines0 ! k)) \<or>
       pdf_isLikelyActionLine (trim (lines0 ! k)) \<and> \<not> isParenthetical (trim (lines0 ! k))))"

lemma no_stop_extend:
  "\<not> P j \<Longrightarrow> \<forall>k. Suc j \<le> k \<and> k < n \<longrightarrow> \<not> P k \<Longrightarrow> \<forall>k. j \<le> k \<and> k < n \<longrightarrow> \<not> P k"
  by (metis Suc_leI le_neq_implies_less)

lemma collectDialogue_unfold:
  "collectDialogue allLines j dls sls =
     (if j < length allLines then
        (if trim (allLines ! j) = []
           then collectDialogue allLines (j + 1) dls sls
         else if isCharacterName (trim (allLines ! j)) allLines j \<or>
                 isSceneHeading (trim (allLines ! j)) \<or>
                 isTransition (trim (allLines ! j)) \<or> isPageNumber (trim (allLines ! j)) \<or>
                 isPageFooter (trim (allLines ! j))
           then (j, dls, sls)
         else if isParenthetical (trim (allLines ! j))
           then collectDialogue allLines (j + 1) dls (sls @ [trim (allLines ! j)])
         else if isLikelyActionLine (trim (allLines ! j))
           then (j, dls, sls)
         else collectDialogue allLines (j + 1) (dls @ [trim (allLines ! j)])
                (sls @ [trim (allLines ! j)]))
      else (j, dls, sls))"
  by (subst collectDialogue.simps) (simp add: Let_def)

lemma collectDialogueP_total:
  "collectDialogueP allLines j dls sls = Some (collectDialogue allLines j dls sls)"
proof (induction allLines j dls sls rule: collectDialogue.induct)
  case (1 allLines j dls sls)
  show ?case
    by (subst collectDialogueP.simps, subst collectDialogue_unfold)
      (use "1.IH" in \<open>simp\<close>)
qed

lemma collectDialogue_stop:
  "j \<le> length allLines \<Longrightarrow>
   fst (collectDialogue allLines j dls sls) \<le> length allLines \<and>
   (fst (collectDialogue allLines j dls sls) < length allLines \<longrightarrow>
      stopsAt allLines (fst (collectDialogue allLines j dls sls))) \<and>
   (\<forall>k. j \<le> k \<and> k < fst (collectDialogue allLines j dls sls) \<longrightarrow> \<not> stopsAt allLines k)"
proof (induction allLines j dls sls rule: collectDialogue.induct)
  case (1 allLines j dls sls)
  show ?case
  proof (cases "j < length allLines")
    case False
    with "1.prems" show ?thesis by (subst (1 2 3 4) collectDialogue_unfold) auto
  next
    case True
    then have s': "j + 1 \<le> length allLines" by simp
    consider (blank) "trim (allLines ! j) = []"
      | (stop) "trim (allLines ! j) \<noteq> []"
          "isCharacterName (trim (allLines ! j)) allLines j \<or>
           isSceneHeading (trim (allLines ! j)) \<or> isTransition (trim (allLines ! j)) \<or>
           isPageNumber (trim (allLines ! j)) \<or> isPageFooter (trim (allLines ! j))"
      | (paren) "trim (allLines ! j) \<noteq> []"
          "\<not> (isCharacterName (trim (allLines ! j)) allLines j \<or>
           isSceneHeading (trim (allLines ! j)) \<or> isTransition (trim (allLines ! j)) \<or>
           isPageNumber (trim (allLines ! j)) \<or> isPageFooter (trim (allLines ! j)))"
          "isParenthetical (trim (allLines ! j))"
      | (act) "trim (allLines ! j) \<noteq> []"
          "\<not> (isCharacterName (trim (allLines ! j)) allLines j \<or>
           isSceneHeading (trim (allLines ! j)) \<or> isTransition (trim (allLines ! j)) \<or>
           isPageNumber (trim (allLines ! j)) \<or> isPageFooter (trim (allLines ! j)))"
          "\<not> isParenthetical (trim (allLines ! j))"
          "isLikelyActionLine (trim (allLines ! j))"
      | (dia) "trim (allLines ! j) \<noteq> []"
          "\<not> (isCharacterName (trim (allLines ! j)) allLines j \<or>
           isSceneHeading (trim (allLines ! j)) \<or> isTransition (trim (allLines ! j)) \<or>
           isPageNumber (trim (allLines ! j)) \<or> isPageFooter (trim (allLines ! j)))"
          "\<not> isParenthetical (trim (allLines ! j))"
          "\<not> isLikelyActionLine (trim (allLines ! j))"
      by blast
    then show ?thesis
    proof cases
      case blank
      then have eq: "collectDialogue allLines j dls sls =
          collectDialogue allLines (j + 1) dls sls"
        using True by (subst collectDialogue_unfold) simp
      from blank have ns: "\<not> stopsAt allLines j" by (simp add: stopsAt_def)
      note ih = "1.IH"(1) [OF True refl blank s']
      from ih have "\<forall>k. Suc j \<le> k \<and> k < fst (collectDialogue allLines (j + 1) dls sls)
          \<longrightarrow> \<not> stopsAt allLines k"
        by simp
      with ns have "\<forall>k. j \<le> k \<and> k < fst (collectDialogue allLines (j + 1) dls sls)
          \<longrightarrow> \<not> stopsAt allLines k"
        by (rule no_stop_extend)
      with ih show ?thesis unfolding eq by simp
    next
      case stop
      then have eq: "collectDialogue allLines j dls sls = (j, dls, sls)"
        using True by (subst collectDialogue_unfold) simp
      from stop have "stopsAt allLines j" by (auto simp: stopsAt_def)
      with True show ?thesis unfolding eq by auto
    next
      case paren
      then have eq: "collectDialogue allLines j dls sls =
          collectDialogue allLines (j + 1) dls (sls @ [trim (allLines ! j)])"
        using True by (subst collectDialogue_unfold) simp
      from paren have ns: "\<not> stopsAt allLines j" by (simp add: stopsAt_def)
      note ih = "1.IH"(2) [OF True refl paren(1,2,3) s']
      from ih have "\<forall>k. Suc j \<le> k \<and> k < fst (collectDialogue allLines (j + 1) dls (sls @ [trim (allLines ! j)]))
          \<longrightarrow> \<not> stopsAt allLines k"
        by simp
      with ns have "\<forall>k. j \<le> k \<and> k < fst (collectDialogue allLines (j + 1) dls (sls @ [trim (allLines ! j)]))
          \<longrightarrow> \<not> stopsAt allLines k"
        by (rule no_stop_extend)
      with ih show ?thesis unfolding eq by simp
    next
      case act
      then have eq: "collectDialogue allLines j dls sls = (j, dls, sls)"
        using True by (subst collectDialogue_unfold) simp
      from act have "stopsAt allLines j" by (simp add: stopsAt_def)
      with True show ?thesis unfolding eq by auto
    next
      case dia
      then have eq: "collectDialogue allLines j dls sls =
          collectDialogue allLines (j + 1) (dls @ [trim (allLines ! j)])
            (sls @ [trim (allLines ! j)])"
        using True by (subst collectDialogue_unfold) simp
      from dia have ns: "\<not> stopsAt allLines j" by (simp add: stopsAt_def)
      note ih = "1.IH"(3) [OF True refl dia(1,2,3,4) s']
      from ih have "\<forall>k. Suc j \<le> k \<and> k < fst (collectDialogue allLines (j + 1) (dls @ [trim (allLines ! j)]) (sls @ [trim (allLines ! j)]))
          \<longrightarrow> \<not> stopsAt allLines k"
        by simp
      with ns have "\<forall>k. j \<le> k \<and> k < fst (collectDialogue allLines (j + 1) (dls @ [trim (allLines ! j)]) (sls @ [trim (allLines ! j)]))
          \<longrightarrow> \<not> stopsAt allLines k"
        by (rule no_stop_extend)
      with ih show ?thesis unfolding eq by simp
    qed
  qed
qed

lemma parseLoopP_total: "parseLoopP allLines i st = Some (parseLoop allLines i st)"
proof (induction allLines i st rule: parseLoop.induct)
  case (1 allLines i st)
  show ?case
  proof (cases "length allLines \<le> i")
    case True
    then show ?thesis by (subst parseLoopP.simps) (simp add: parseLoop_done)
  next
    case False
    then have "i < length allLines" by simp
    with "1.IH" [OF False] False show ?thesis
      by (subst parseLoopP.simps) (simp add: parseLoop_step)
  qed
qed

lemma loopBody_bound:
  assumes "i < length allLines"
  shows "fst (loopBody allLines i st) \<le> length allLines"
proof -
  have "fst (collectDialogue (map l_text allLines) (i + 1) [] sl) \<le> length allLines" for sl
    using collectDialogue_stop [of "i + 1" "map l_text allLines" "[]" sl] assms by simp
  with assms show ?thesis
    by (simp add: loopBody_index)
qed

lemma pdf_collectDialogue_unfold:
  "pdf_collectDialogue lines0 j dls sls =
     (if j < length lines0 then
        (if trim (lines0 ! j) = []
           then pdf_collectDialogue lines0 (j + 1) dls sls
         else if pdf_isCharacterName (trim (lines0 ! j)) lines0 j \<or>
                 pdf_isSceneHeading (trim (lines0 ! j)) \<or>
                 pdf_isPageNumber (trim (lines0 ! j)) \<or>
                 pdf_isPageFooter (trim (lines0 ! j)) \<or> pdf_isTransition (trim (lines0 ! j))
           then (j, dls, sls)
         else if isParenthetical (trim (lines0 ! j))
           then pdf_collectDialogue lines0 (j + 1) dls (sls @ [trim (lines0 ! j)])
         else if pdf_isLikelyActionLine (trim (lines0 ! j))
           then (j, dls, sls)
         else pdf_collectDialogue lines0 (j + 1) (dls @ [trim (lines0 ! j)])
                (sls @ [trim (lines0 ! j)]))
      else (j, dls, sls))"
  by (subst pdf_collectDialogue.simps) (simp add: Let_def)

lemma pdf_collectDialogueP_total:
  "pdf_collectDialogueP lines0 j dls sls = Some (pdf_collectDialogue lines0 j dls sls)"
proof (induction lines0 j dls sls rule: pdf_collectDialogue.induct)
  case (1 lines0 j dls sls)
  show ?case
    by (subst pdf_collectDialogueP.simps, subst pdf_collectDialogue_unfold)
      (use "1.IH" in \<open>simp\<close>)
qed

lemma pdf_collectDialogue_stop:
  "j \<le> length lines0 \<Longrightarrow>
   fst (pdf_collectDialogue lines0 j dls sls) \<le> length lines0 \<and>
   (fst (pdf_collectDialogue lines0 j dls sls) < length lines0 \<longrightarrow>
      pdf_stopsAt lines0 (fst (pdf_collectDialogue lines0 j dls sls))) \<and>
   (\<forall>k. j \<le> k \<and> k < fst (pdf_collectDialogue lines0 j dls sls) \<longrightarrow> \<not> pdf_stopsAt lines0 k)"
proof (induction lines0 j dls sls rule: pdf_collectDialogue.induct)
  case (1 lines0 j dls sls)
  show ?case
  proof (cases "j < length lines0")
    case False
    with "1.prems" show ?thesis by (subst (1 2 3 4) pdf_collectDialogue_unfold) auto
  next
    case True
    then have s': "j + 1 \<le> length lines0" by simp
    consider (blank) "trim (lines0 ! j) = []"
      | (stop) "trim (lines0 ! j) \<noteq> []"
          "pdf_isCharacterName (trim (lines0 ! j)) lines0 j \<or>
           pdf_isSceneHeading (trim (lines0 ! j)) \<or> pdf_isPageNumber (trim (lines0 ! j)) \<or>
           pdf_isPageFooter (trim (lines0 ! j)) \<or> pdf_isTransition (trim (lines0 ! j))"
      | (paren) "trim (lines0 ! j) \<noteq> []"
          "\<not> (pdf_isCharacterName (trim (lines0 ! j)) lines0 j \<or>
           pdf_isSceneHeading (trim (lines0 ! j)) \<or> pdf_isPageNumber (trim (lines0 ! j)) \<or>
           pdf_isPageFooter (trim (lines0 ! j)) \<or> pdf_isTransition (trim (lines0 ! j)))"
          "isParenthetical (trim (lines0 ! j))"
      | (act) "trim (lines0 ! j) \<noteq> []"
          "\<not> (pdf_isCharacterName (trim (lines0 ! j)) lines0 j \<or>
           pdf_isSceneHeading (trim (lines0 ! j)) \<or> pdf_isPageNumber (trim (lines0 ! j)) \<or>
           pdf_isPageFooter (trim (lines0 ! j)) \<or> pdf_isTransition (trim (lines0 ! j)))"
          "\<not> isParenthetical (trim (lines0 ! j))"
          "pdf_isLikelyActionLine (trim (lines0 ! j))"
      | (dia) "trim (lines0 ! j) \<noteq> []"
          "\<not> (pdf_isCharacterName (trim (lines0 ! j)) lines0 j \<or>
           pdf_isSceneHeading (trim (lines0 ! j)) \<or> pdf_isPageNumber (trim (lines0 ! j)) \<or>
           pdf_isPageFooter (trim (lines0 ! j)) \<or> pdf_isTransition (trim (lines0 ! j)))"
          "\<not> isParenthetical (trim (lines0 ! j))"
          "\<not> pdf_isLikelyActionLine (trim (lines0 ! j))"
      by blast
    then show ?thesis
    proof cases
      case blank
      then have eq: "pdf_collectDialogue lines0 j dls sls =
          pdf_collectDialogue lines0 (j + 1) dls sls"
        using True by (subst pdf_collectDialogue_unfold) simp
      from blank have ns: "\<not> pdf_stopsAt lines0 j" by (simp add: pdf_stopsAt_def)
      note ih = "1.IH"(1) [OF True refl blank s']
      from ih have "\<forall>k. Suc j \<le> k \<and> k < fst (pdf_collectDialogue lines0 (j + 1) dls sls)
          \<longrightarrow> \<not> pdf_stopsAt lines0 k"
        by simp
      with ns have "\<forall>k. j \<le> k \<and> k < fst (pdf_collectDialogue lines0 (j + 1) dls sls)
          \<longrightarrow> \<not> pdf_stopsAt lines0 k"
        by (rule no_stop_extend)
      with ih show ?thesis unfolding eq by simp
    next
      case stop
      then have eq: "pdf_collectDialogue lines0 j dls sls = (j, dls, sls)"
        using True by (subst pdf_collectDialogue_unfold) simp
      from stop have "pdf_stopsAt lines0 j" by (auto simp: pdf_stopsAt_def)
      with True show ?thesis unfolding eq by auto
    next
      case paren
      then have eq: "pdf_collectDialogue lines0 j dls sls =
          pdf_collectDialogue lines0 (j + 1) dls (sls @ [trim (lines0 ! j)])"
        using True by (subst pdf_collectDialogue_unfold) simp
      from paren have ns: "\<not> pdf_stopsAt lines0 j" by (simp add: pdf_stopsAt_def)
      note ih = "1.IH"(2) [OF True refl paren(1,2,3) s']
      from ih have "\<forall>k. Suc j \<le> k \<and> k < fst (pdf_collectDialogue lines0 (j + 1) dls (sls @ [trim (lines0 ! j)]))
          \<longrightarrow> \<not> pdf_stopsAt lines0 k"
        by simp
      with ns have "\<forall>k. j \<le> k \<and> k < fst (pdf_collectDialogue lines0 (j + 1) dls (sls @ [trim (lines0 ! j)]))
          \<longrightarrow> \<not> pdf_stopsAt lines0 k"
        by (rule no_stop_extend)
      with ih show ?thesis unfolding eq by simp
    next
      case act
      then have eq: "pdf_collectDialogue lines0 j dls sls = (j, dls, sls)"
        using True by (subst pdf_collectDialogue_unfold) simp
      from act have "pdf_stopsAt lines0 j" by (simp add: pdf_stopsAt_def)
      with True show ?thesis unfolding eq by auto
    next
      case dia
      then have eq: "pdf_collectDialogue lines0 j dls sls =
          pdf_collectDialogue lines0 (j + 1) (dls @ [trim (lines0 ! j)])
            (sls @ [trim (lines0 ! j)])"
        using True by (subst pdf_collectDialogue_unfold) simp
      from dia have ns: "\<not> pdf_stopsAt lines0 j" by (simp add: pdf_stopsAt_def)
      note ih = "1.IH"(3) [OF True refl dia(1,2,3,4) s']
      from ih have "\<forall>k. Suc j \<le> k \<and> k < fst (pdf_collectDialogue lines0 (j + 1) (dls @ [trim (lines0 ! j)]) (sls @ [trim (lines0 ! j)]))
          \<longrightarrow> \<not> pdf_stopsAt lines0 k"
        by simp
      with ns have "\<forall>k. j \<le> k \<and> k < fst (pdf_collectDialogue lines0 (j + 1) (dls @ [trim (lines0 ! j)]) (sls @ [trim (lines0 ! j)]))
          \<longrightarrow> \<not> pdf_stopsAt lines0 k"
        by (rule no_stop_extend)
      with ih show ?thesis unfolding eq by simp
    qed
  qed
qed


lemma pdf_parseLoopP_total:
  "pdf_parseLoopP lines0 totalPages0 i st = Some (pdf_parseLoop lines0 totalPages0 i st)"
proof (induction lines0 totalPages0 i st rule: pdf_parseLoop.induct)
  case (1 lines0 totalPages0 i st)
  show ?case
  proof (cases "length lines0 \<le> i")
    case True
    then show ?thesis
      by (subst pdf_parseLoopP.simps, subst pdf_parseLoop.simps) simp
  next
    case False
    with "1.IH" [OF False] show ?thesis
      by (subst pdf_parseLoopP.simps, subst pdf_parseLoop.simps) simp
  qed
qed

lemma pdf_loopBody_bound:
  assumes "i < length lines0"
  shows "fst (pdf_loopBody lines0 totalPages0 i st) \<le> length lines0"
proof -
  have "fst (pdf_collectDialogue lines0 (i + 1) [] sl) \<le> length lines0" for sl
    using pdf_collectDialogue_stop [of "i + 1" lines0 "[]" sl] assms by simp
  with assms show ?thesis
    by (auto simp: pdf_loopBody_def Let_def split: option.split)
qed

text \<open>
  C9. The dialogue loop that starts after a character cue returns for every list of
  lines and every start index, in the hybrid parser and in the PDF parser. The index it
  returns is the end of the lines or the first index from the start at which the line is
  a structural marker (a character cue, a scene heading, a transition, a page number or
  footer, or an action-shaped line), and no line before it is one. The main loop returns
  too; every iteration moves the index forward and stays within the lines, the lines
  taken by the dialogue loop included, so the parse is one forward pass.
\<close>

theorem dialogue_loop_terminates:
  "collectDialogueP allLines j dls sls = Some (collectDialogue allLines j dls sls) \<and>
   (j \<le> length allLines \<longrightarrow>
      j \<le> fst (collectDialogue allLines j dls sls) \<and>
      fst (collectDialogue allLines j dls sls) \<le> length allLines \<and>
      (fst (collectDialogue allLines j dls sls) < length allLines \<longrightarrow>
         stopsAt allLines (fst (collectDialogue allLines j dls sls))) \<and>
      (\<forall>k. j \<le> k \<and> k < fst (collectDialogue allLines j dls sls) \<longrightarrow>
           \<not> stopsAt allLines k)) \<and>
   parseLoopP lineObjs i st = Some (parseLoop lineObjs i st) \<and>
   i < fst (loopBody lineObjs i st) \<and>
   (i < length lineObjs \<longrightarrow> fst (loopBody lineObjs i st) \<le> length lineObjs) \<and>
   pdf_collectDialogueP lines0 j dls sls = Some (pdf_collectDialogue lines0 j dls sls) \<and>
   (j \<le> length lines0 \<longrightarrow>
      j \<le> fst (pdf_collectDialogue lines0 j dls sls) \<and>
      fst (pdf_collectDialogue lines0 j dls sls) \<le> length lines0 \<and>
      (fst (pdf_collectDialogue lines0 j dls sls) < length lines0 \<longrightarrow>
         pdf_stopsAt lines0 (fst (pdf_collectDialogue lines0 j dls sls))) \<and>
      (\<forall>k. j \<le> k \<and> k < fst (pdf_collectDialogue lines0 j dls sls) \<longrightarrow>
           \<not> pdf_stopsAt lines0 k)) \<and>
   pdf_parseLoopP lines0 totalPages0 i pst = Some (pdf_parseLoop lines0 totalPages0 i pst) \<and>
   i < fst (pdf_loopBody lines0 totalPages0 i pst) \<and>
   (i < length lines0 \<longrightarrow> fst (pdf_loopBody lines0 totalPages0 i pst) \<le> length lines0)"
  using collectDialogueP_total [of allLines j dls sls]
    collectDialogue_stop [of j allLines dls sls] collectDialogue_ge [of j allLines dls sls]
    parseLoopP_total [of lineObjs i st] loopBody_progress [of i lineObjs st]
    loopBody_bound [of i lineObjs st]
    pdf_collectDialogueP_total [of lines0 j dls sls]
    pdf_collectDialogue_stop [of j lines0 dls sls] pdf_collectDialogue_ge [of j lines0 dls sls]
    pdf_parseLoopP_total [of lines0 totalPages0 i pst]
    pdf_loopBody_progress [of i lines0 totalPages0 pst]
    pdf_loopBody_bound [of i lines0 totalPages0 pst]
  by blast

text \<open>
  The loops on the script of the section above, and the dialogue loop of the PDF parser
  on a line of dialogue followed by a page number.
\<close>

lemma p_collectDialogue:
  "pdf_collectDialogue [js ''hi'', js ''4''] 0 [] [] = (1, [js ''hi''], [js ''hi''])"
  by (simp add: pdf_collectDialogue.simps Let_def ev pdf_isCharacterName_def
      pdf_isSceneHeading_def pdf_isPageNumber_def pdf_isPageFooter_def pdf_isTransition_def
      pdf_transitions_def pdf_isLikelyActionLine_def pdf_looksLikeCharacterName_def
      pdf_characterPattern_def pdf_prefixes_def pdf_headingChar_def scriptEnders_def)

lemma p_stopsAt:
  "pdf_stopsAt [js ''hi'', js ''4''] 1" "\<not> pdf_stopsAt [js ''hi'', js ''4''] 0"
  by (simp_all add: pdf_stopsAt_def ev pdf_isCharacterName_def
      pdf_isSceneHeading_def pdf_isPageNumber_def pdf_isPageFooter_def pdf_isTransition_def
      pdf_transitions_def pdf_isLikelyActionLine_def pdf_looksLikeCharacterName_def
      pdf_characterPattern_def pdf_prefixes_def pdf_headingChar_def scriptEnders_def)

lemma w_stopsAt: "stopsAt w_texts 4" "\<not> stopsAt w_texts 3"
  by (simp_all add: stopsAt_def w_facts)

theorem dialogue_loop_terminates_witness:
  "3 \<le> length w_texts \<and>
   collectDialogueP w_texts 3 [] [w_heading, w_cue] =
     Some (4, [w_dia], [w_heading, w_cue, w_dia]) \<and>
   4 < length w_texts \<and> stopsAt w_texts 4 \<and> \<not> stopsAt w_texts 3 \<and>
   parseLoopP w_lines 0
     \<lparr>scenes = [], currentScene = None, currentCharacter = None, sceneLines = []\<rparr> =
     Some (w_state (w_scene [w_cue] [\<lparr>character = w_cue, dtext = w_dia\<rparr>] [w_act])
       (Some w_cue) [w_heading, w_cue, w_dia, w_act]) \<and>
   2 < length w_lines \<and>
   fst (loopBody w_lines 2 (w_state (w_scene [] [] []) None [w_heading])) = 4 \<and>
   0 \<le> length [js ''hi'', js ''4''] \<and>
   pdf_collectDialogueP [js ''hi'', js ''4''] 0 [] [] = Some (1, [js ''hi''], [js ''hi'']) \<and>
   1 < length [js ''hi'', js ''4''] \<and>
   pdf_stopsAt [js ''hi'', js ''4''] 1 \<and> \<not> pdf_stopsAt [js ''hi'', js ''4''] 0 \<and>
   (\<exists>pst. pdf_parseLoopP [js ''hi'', js ''4''] 1 0
      \<lparr>ps_scenes = [], ps_currentScene = None, ps_currentSceneLines = []\<rparr> = Some pst) \<and>
   0 < fst (pdf_loopBody [js ''hi'', js ''4''] 1 0
      \<lparr>ps_scenes = [], ps_currentScene = None, ps_currentSceneLines = []\<rparr>) \<and>
   fst (pdf_loopBody [js ''hi'', js ''4''] 1 0
      \<lparr>ps_scenes = [], ps_currentScene = None, ps_currentSceneLines = []\<rparr>) \<le> 2"
  using dialogue_loop_terminates [of w_texts 3 "[]" "[w_heading, w_cue]" w_lines 0
      "\<lparr>scenes = [], currentScene = None, currentCharacter = None, sceneLines = []\<rparr>"
      "[]" 1 "\<lparr>ps_scenes = [], ps_currentScene = None, ps_currentSceneLines = []\<rparr>"]
    dialogue_loop_terminates [of "[]" 0 "[]" "[]" w_lines 0
      "\<lparr>scenes = [], currentScene = None, currentCharacter = None, sceneLines = []\<rparr>"
      "[js ''hi'', js ''4'']" 1
      "\<lparr>ps_scenes = [], ps_currentScene = None, ps_currentSceneLines = []\<rparr>"]
    w_collectDialogue w_parseLoop w_stopsAt w_step2 p_collectDialogue p_stopsAt
  by simp

section \<open>A cue needs a line after it\<close>

lemma isCharacterName_next:
  assumes "isCharacterName line allLines i"
  shows "Suc i < length allLines \<and> trim (allLines ! Suc i) \<noteq> [] \<and>
         \<not> looksLikeCharacterName (trim (allLines ! Suc i)) \<and>
         \<not> isSceneHeading (trim (allLines ! Suc i))"
  using assms by (simp add: isCharacterName_def Let_def split: if_splits)

lemma doc_isCharacterName_next:
  assumes "doc_isCharacterName line lines0 i"
  shows "Suc i < length lines0 \<and> trim (lines0 ! Suc i) \<noteq> [] \<and>
         \<not> isSceneHeading (trim (lines0 ! Suc i))"
  using assms by (simp add: doc_isCharacterName_def Let_def split: if_splits)

lemma join_nonempty: "ls \<noteq> [] \<Longrightarrow> \<forall>l\<in>set ls. l \<noteq> [] \<Longrightarrow> join sep ls \<noteq> []"
  by (induction sep ls rule: join.induct) simp_all

lemma dialogue_text_nonempty:
  "list_all (\<lambda>s. list_all (\<lambda>d. dtext d \<noteq> []) (dialogue s)) (parseScenes pages)"
proof -
  have "dtext d \<noteq> []" if "s \<in> set (parseScenes pages)" "d \<in> set (dialogue s)" for s d
  proof -
    from that(1) have "sceneTidy s" using tidy_parseScenes by blast
    with that(2) obtain ls where "ls \<noteq> []" "\<forall>l\<in>set ls. goodLine l" "dtext d = join [32] ls"
      by (auto simp: sceneTidy_def)
    then show ?thesis using join_nonempty [of ls "[32]"] by (simp add: goodLine_def)
  qed
  then show ?thesis by (simp add: list_all_iff)
qed

definition doc_spoken :: "DocState \<Rightarrow> bool" where
  "doc_spoken st =
     ((\<forall>cs. ds_currentScene st = Some cs \<longrightarrow> (\<forall>d\<in>set (doc_dialogue cs). dtext d \<noteq> [])) \<and>
      (\<forall>s\<in>set (ds_scenes st). \<forall>d\<in>set (doc_dialogue s). dtext d \<noteq> []))"

lemma doc_spoken_pushCurrent:
  "doc_spoken st \<Longrightarrow> \<forall>s\<in>set (doc_pushCurrent st). \<forall>d\<in>set (doc_dialogue s). dtext d \<noteq> []"
  by (cases "ds_currentScene st")
    (auto simp: doc_spoken_def doc_pushCurrent_def doc_sealScene_def)

lemma doc_spoken_lineStep: "doc_spoken st \<Longrightarrow> doc_spoken (doc_lineStep pageNo lines0 st x)"
proof -
  assume s: "doc_spoken st"
  note h = doc_spoken_pushCurrent [OF s]
  show ?thesis
    using s h
    by (auto simp: doc_lineStep_def Let_def doc_spoken_def split: option.split)
qed

lemma doc_spoken_pageStep: "doc_spoken st \<Longrightarrow> doc_spoken (doc_pageStep st page0)"
  unfolding doc_pageStep_def Let_def
  by (rule foldl_invariant) (simp_all add: doc_spoken_lineStep)

lemma doc_dialogue_text_nonempty:
  "list_all (\<lambda>s. list_all (\<lambda>d. dtext d \<noteq> []) (doc_dialogue s)) (analyzeScenes textPages)"
proof -
  have "doc_spoken \<lparr>ds_scenes = [], ds_currentScene = None, ds_sceneLines = [],
      ds_sceneNumber = 1\<rparr>"
    by (simp add: doc_spoken_def)
  then have "doc_spoken (foldl doc_pageStep \<lparr>ds_scenes = [], ds_currentScene = None,
      ds_sceneLines = [], ds_sceneNumber = 1\<rparr> textPages)"
    by (rule foldl_invariant) (rule doc_spoken_pageStep)
  then show ?thesis
    unfolding analyzeScenes_def using doc_spoken_pushCurrent by (simp add: list_all_iff)
qed

text \<open>
  The tests that \<open>isCharacterName\<close> makes on the line itself, before it reads the
  line after it: the shape of a name, in the hybrid parser and in the document parser.
\<close>

definition cueShape :: "jsstring \<Rightarrow> bool" where
  "cueShape line =
     (2 \<le> length (trim line) \<and> length (trim line) \<le> 50 \<and>
      \<not> isPageNumber (trim line) \<and> \<not> isPageFooter (trim line) \<and>
      \<not> isSceneHeading (trim line) \<and> \<not> isTransition (trim line) \<and>
      2 \<le> length (trim (stripParens (trim line))) \<and>
      list_ex isUpperAZ (trim (stripParens (trim line))) \<and>
      characterPattern (trim (stripParens (trim line))) \<and>
      (initialsPattern (trim (stripParens (trim line))) \<or>
       46 \<notin> set (trim (stripParens (trim line)))))"

definition doc_cueShape :: "jsstring \<Rightarrow> bool" where
  "doc_cueShape line =
     (2 \<le> length (trim line) \<and> length (trim line) \<le> 50 \<and>
      \<not> isSceneHeading (trim line) \<and> \<not> doc_isTransition (trim line) \<and>
      trim (stripParens (trim line)) \<noteq> [] \<and>
      list_ex isUpperAZ (trim (stripParens (trim line))) \<and>
      characterPattern (trim (stripParens (trim line))))"

lemma isCharacterName_iff:
  "isCharacterName line allLines i =
     (cueShape line \<and> Suc i < length allLines \<and> trim (allLines ! Suc i) \<noteq> [] \<and>
      \<not> looksLikeCharacterName (trim (allLines ! Suc i)) \<and>
      \<not> isSceneHeading (trim (allLines ! Suc i)))"
  by (auto simp: isCharacterName_def cueShape_def Let_def not_less not_le Suc_le_eq)

lemma doc_isCharacterName_iff:
  "doc_isCharacterName line lines0 i =
     (doc_cueShape line \<and> Suc i < length lines0 \<and> trim (lines0 ! Suc i) \<noteq> [] \<and>
      \<not> isSceneHeading (trim (lines0 ! Suc i)))"
  by (auto simp: doc_isCharacterName_def doc_cueShape_def Let_def not_less not_le Suc_le_eq)

text \<open>
  C6, as the code has it. In the hybrid parser a line is a character cue if and only if
  it has the shape of a name and the line after it exists, is not blank, is not
  character-shaped and is not a scene heading: of two consecutive character-shaped lines
  the first is not a cue. The document parser has no test of the shape of the next line:
  there a line is a cue if and only if it has the shape of a name and the next line of
  the page exists, is not blank and is not a scene heading. In both parsers no dialogue
  entry has an empty text.
\<close>

theorem cue_needs_following_line:
  "isCharacterName line allLines i =
     (cueShape line \<and> Suc i < length allLines \<and> trim (allLines ! Suc i) \<noteq> [] \<and>
      \<not> looksLikeCharacterName (trim (allLines ! Suc i)) \<and>
      \<not> isSceneHeading (trim (allLines ! Suc i))) \<and>
   (looksLikeCharacterName (trim (allLines ! Suc i)) \<longrightarrow> \<not> isCharacterName line allLines i) \<and>
   list_all (\<lambda>s. list_all (\<lambda>d. dtext d \<noteq> []) (dialogue s)) (parseScenes pages) \<and>
   doc_isCharacterName line lines0 i =
     (doc_cueShape line \<and> Suc i < length lines0 \<and> trim (lines0 ! Suc i) \<noteq> [] \<and>
      \<not> isSceneHeading (trim (lines0 ! Suc i))) \<and>
   list_all (\<lambda>s. list_all (\<lambda>d. dtext d \<noteq> []) (doc_dialogue s)) (analyzeScenes textPages)"
  using isCharacterName_iff [of line allLines i] doc_isCharacterName_iff [of line lines0 i]
    dialogue_text_nonempty [of pages] doc_dialogue_text_nonempty [of textPages]
  by blast

lemma w_doc_isCharacterName: "doc_isCharacterName w_cue w_texts 2"
  by (simp add: w_defs ev doc_isCharacterName_def doc_isTransition_def doc_transitions_def)

lemma w_cueShape: "cueShape w_cue" "doc_cueShape w_cue"
  using w_isCharacterName(1) w_doc_isCharacterName
  by (simp_all add: isCharacterName_iff doc_isCharacterName_iff)

theorem cue_needs_following_line_witness:
  "isCharacterName w_cue w_texts 2 \<and> doc_isCharacterName w_cue w_texts 2 \<and>
   cueShape w_cue \<and> doc_cueShape w_cue \<and>
   Suc 2 < length w_texts \<and> trim (w_texts ! Suc 2) \<noteq> [] \<and>
   \<not> looksLikeCharacterName (trim (w_texts ! Suc 2)) \<and>
   \<not> isSceneHeading (trim (w_texts ! Suc 2)) \<and>
   looksLikeCharacterName (trim ([js ''JOHN'', js ''MARY'', js ''Hi''] ! Suc 0)) \<and>
   \<not> isCharacterName (js ''JOHN'') [js ''JOHN'', js ''MARY'', js ''Hi''] 0"
proof -
  have mary: "looksLikeCharacterName (trim ([js ''JOHN'', js ''MARY'', js ''Hi''] ! Suc 0))"
    by (simp add: ev)
  show ?thesis
    using cue_needs_following_line [of w_cue w_texts 2 "[]" w_texts "[]"]
      cue_needs_following_line [of "js ''JOHN''" "[js ''JOHN'', js ''MARY'', js ''Hi'']" 0
        "[]" "[]" "[]"]
      w_isCharacterName(1) w_doc_isCharacterName w_cueShape mary
    by simp
qed

text \<open>
  The claim as stated fails in the document parser: \<open>JOHN\<close> directly followed by the
  character-shaped line \<open>MARY\<close> passes its cue test, and so does \<open>MARY\<close>.
\<close>

theorem doc_consecutive_names_counterexample:
  "doc_isCharacterName (js ''JOHN'') [js ''JOHN'', js ''MARY'', js ''Hi''] 0 \<and>
   doc_isCharacterName (js ''MARY'') [js ''JOHN'', js ''MARY'', js ''Hi''] 1 \<and>
   looksLikeCharacterName (js ''MARY'')"
  by (simp add: ev doc_isCharacterName_def doc_isTransition_def doc_transitions_def)

end
